theory Spec2Isabelle
  imports Main "HOL-Library.Word" "HOL-Library.Multiset"
begin

unbundle bit_operations_syntax

section \<open>Data model of main.go\<close>

text \<open>
  A Go string is modelled by the sequence of Unicode code points that ranging over it
  yields (\<open>for _, r := range s\<close>, \<open>[]rune(s)\<close>): a \<open>rune list\<close>, a \<open>rune\<close> being
  an integer as in Go. Request values come
  out of the JSON decoder, so they are valid UTF-8 and the code points determine the
  bytes. Go's \<open>int\<close> is the 64-bit signed integer of the platforms the service is
  deployed on; it is modelled by \<open>int\<close>, with the wrap-around written out where the code
  does arithmetic on values taken from the request. A \<open>time.Time\<close> is modelled by its
  instant, a number of nanoseconds.
\<close>

type_synonym rune = int
type_synonym gostring = "rune list"
type_synonym byte = "8 word"
type_synonym Time = int

text \<open>An ASCII literal of the source, as a Go string.\<close>

definition runes :: "string \<Rightarrow> gostring" where
  "runes cs = map of_char cs"

record StringProperties =
  Length :: int
  IsPalindrome :: bool
  UniqueCharacters :: int
  WordCount :: int
  SHA256Hash :: gostring
  CharacterFrequencyMap :: "gostring \<rightharpoonup> int"

record AnalyzedString =
  ID :: gostring
  Value :: gostring
  Properties :: StringProperties
  CreatedAt :: Time

text \<open>\<open>FilterParams\<close>: every field is a pointer in the source, \<open>nil\<close> when the filter is absent.\<close>

record FilterParams =
  fpIsPalindrome :: "bool option"
  fpMinLength :: "int option"
  fpMaxLength :: "int option"
  fpWordCount :: "int option"
  fpContainsCharacter :: "gostring option"

text \<open>The values of \<open>map[string]interface{}\<close> that the parser stores.\<close>

datatype iface = IntV int | BoolV bool | StrV gostring

type_synonym filters = "string \<rightharpoonup> iface"

text \<open>\<open>stringStore\<close>: the global \<open>map[string]*AnalyzedString\<close>, keyed by the hash.\<close>

type_synonym store = "gostring \<rightharpoonup> AnalyzedString"

section \<open>Library functions the source calls\<close>

subsection \<open>\<open>unicode.ToLower\<close> and \<open>strings.ToLower\<close>\<close>

text \<open>
  \<open>unicode.ToLower\<close> lowers \<open>A\<close>..\<open>Z\<close> by arithmetic and looks every code point above
  \<open>MaxASCII\<close> up in the Unicode case tables. The tables are not part of the repository:
  they are the parameter \<open>tbl\<close>. \<open>strings.ToLower\<close> maps \<open>unicode.ToLower\<close> over the
  code points of the string.
\<close>

definition unicode_ToLower :: "(rune \<Rightarrow> rune) \<Rightarrow> rune \<Rightarrow> rune" where
  "unicode_ToLower tbl r =
     (if r \<le> 0x7F then (if 0x41 \<le> r \<and> r \<le> 0x5A then r + 0x20 else r) else tbl r)"

definition strings_ToLower :: "(rune \<Rightarrow> rune) \<Rightarrow> gostring \<Rightarrow> gostring" where
  "strings_ToLower tbl s = map (unicode_ToLower tbl) s"

subsection \<open>The character classes of \<open>regexp\<close> and \<open>unicode.IsSpace\<close>\<close>

text \<open>
  In Go's regular expressions (RE2 syntax) \<open>\s\<close> is the class \<open>[\t\n\f\r ]\<close> and \<open>\d\<close>
  is \<open>[0-9]\<close>: both are ASCII only, and \<open>\s\<close> has neither the vertical tab nor any
  Unicode space.
\<close>

definition re_space :: "rune \<Rightarrow> bool" where
  "re_space r = (r = 0x09 \<or> r = 0x0A \<or> r = 0x0C \<or> r = 0x0D \<or> r = 0x20)"

definition re_digit :: "rune \<Rightarrow> bool" where
  "re_digit r = (0x30 \<le> r \<and> r \<le> 0x39)"

definition re_lower :: "rune \<Rightarrow> bool" where
  "re_lower r = (0x61 \<le> r \<and> r \<le> 0x7A)"

text \<open>\<open>unicode.IsSpace\<close>: the code points with Unicode's White Space property.\<close>

definition unicode_IsSpace :: "rune \<Rightarrow> bool" where
  "unicode_IsSpace r =
     (r = 0x09 \<or> r = 0x0A \<or> r = 0x0B \<or> r = 0x0C \<or> r = 0x0D \<or> r = 0x20
      \<or> r = 0x85 \<or> r = 0xA0 \<or> r = 0x1680 \<or> (0x2000 \<le> r \<and> r \<le> 0x200A)
      \<or> r = 0x2028 \<or> r = 0x2029 \<or> r = 0x202F \<or> r = 0x205F \<or> r = 0x3000)"

subsection \<open>\<open>strings.Fields\<close>\<close>

text \<open>
  \<open>strings.Fields\<close> splits around each run of \<open>unicode.IsSpace\<close> code points and
  returns the non-empty pieces. \<open>fields_from cur s\<close> scans \<open>s\<close> with the field read so
  far in \<open>cur\<close>.
\<close>

fun fields_from :: "gostring \<Rightarrow> gostring \<Rightarrow> gostring list" where
  "fields_from cur [] = (if cur = [] then [] else [cur])"
| "fields_from cur (r # rs) =
     (if unicode_IsSpace r
      then (if cur = [] then fields_from [] rs else cur # fields_from [] rs)
      else fields_from (cur @ [r]) rs)"

definition strings_Fields :: "gostring \<Rightarrow> gostring list" where
  "strings_Fields s = fields_from [] s"

subsection \<open>\<open>[]byte(s)\<close>, \<open>sha256.Sum256\<close> and \<open>fmt.Sprintf("%x", hash)\<close>\<close>

text \<open>
  \<open>[]byte(s)\<close> is the UTF-8 encoding of the string. A code point that is no Unicode
  scalar value is encoded as U+FFFD, as \<open>utf8.AppendRune\<close> does.
\<close>

definition utf8_EncodeRune :: "rune \<Rightarrow> byte list" where
  "utf8_EncodeRune r =
     (if 0 \<le> r \<and> r \<le> 0x7F then [of_int r]
      else if 0 \<le> r \<and> r \<le> 0x7FF
        then [of_int (0xC0 + r div 64), of_int (0x80 + r mod 64)]
      else if r < 0 \<or> (0xD800 \<le> r \<and> r \<le> 0xDFFF) \<or> 0x10FFFF < r
        then [0xEF, 0xBF, 0xBD]
      else if r \<le> 0xFFFF
        then [of_int (0xE0 + r div 4096), of_int (0x80 + r div 64 mod 64),
              of_int (0x80 + r mod 64)]
      else [of_int (0xF0 + r div 262144), of_int (0x80 + r div 4096 mod 64),
            of_int (0x80 + r div 64 mod 64), of_int (0x80 + r mod 64)])"

definition bytes_of :: "gostring \<Rightarrow> byte list" where
  "bytes_of s = concat (map utf8_EncodeRune s)"

text \<open>
  SHA-256 (FIPS 180-4), as \<open>crypto/sha256\<close> computes it. The 32-bit words are
  integers in \<open>0..<2^32\<close>, with the reduction modulo \<open>2^32\<close> written out.
\<close>

definition add32 :: "int \<Rightarrow> int \<Rightarrow> int" where
  "add32 a b = (a + b) mod 4294967296"

definition rotr32 :: "nat \<Rightarrow> int \<Rightarrow> int" where
  "rotr32 n x = x div 2 ^ n + (x mod 2 ^ n) * 2 ^ (32 - n)"

definition shr32 :: "nat \<Rightarrow> int \<Rightarrow> int" where
  "shr32 n x = x div 2 ^ n"

definition sha256_K :: "int list" where
  "sha256_K = [
  0x428A2F98, 0x71374491, 0xB5C0FBCF, 0xE9B5DBA5, 0x3956C25B, 0x59F111F1, 0x923F82A4, 0xAB1C5ED5,
  0xD807AA98, 0x12835B01, 0x243185BE, 0x550C7DC3, 0x72BE5D74, 0x80DEB1FE, 0x9BDC06A7, 0xC19BF174,
  0xE49B69C1, 0xEFBE4786, 0x0FC19DC6, 0x240CA1CC, 0x2DE92C6F, 0x4A7484AA, 0x5CB0A9DC, 0x76F988DA,
  0x983E5152, 0xA831C66D, 0xB00327C8, 0xBF597FC7, 0xC6E00BF3, 0xD5A79147, 0x06CA6351, 0x14292967,
  0x27B70A85, 0x2E1B2138, 0x4D2C6DFC, 0x53380D13, 0x650A7354, 0x766A0ABB, 0x81C2C92E, 0x92722C85,
  0xA2BFE8A1, 0xA81A664B, 0xC24B8B70, 0xC76C51A3, 0xD192E819, 0xD6990624, 0xF40E3585, 0x106AA070,
  0x19A4C116, 0x1E376C08, 0x2748774C, 0x34B0BCB5, 0x391C0CB3, 0x4ED8AA4A, 0x5B9CCA4F, 0x682E6FF3,
  0x748F82EE, 0x78A5636F, 0x84C87814, 0x8CC70208, 0x90BEFFFA, 0xA4506CEB, 0xBEF9A3F7, 0xC67178F2]"

definition sha256_init :: "int list" where
  "sha256_init = [0x6A09E667, 0xBB67AE85, 0x3C6EF372, 0xA54FF53A,
                  0x510E527F, 0x9B05688C, 0x1F83D9AB, 0x5BE0CD19]"

definition big_endian :: "int list \<Rightarrow> int" where
  "big_endian bs = foldl (\<lambda>acc b. acc * 256 + b) 0 bs"

fun chunks :: "nat \<Rightarrow> nat \<Rightarrow> 'a list \<Rightarrow> 'a list list" where
  "chunks 0 n xs = []"
| "chunks (Suc k) n xs = take n xs # chunks k n (drop n xs)"

text \<open>Padding: the byte 0x80, zeros, and the bit length of the message in 64 bits.\<close>

definition sha256_pad :: "int list \<Rightarrow> int list" where
  "sha256_pad m =
     (let l = length m; z = (119 - l mod 64) mod 64; len = int (8 * l) mod 2 ^ 64
      in m @ [0x80] @ replicate z 0 @ map (\<lambda>i. (len div 2 ^ (8 * (7 - i))) mod 256) [0..<8])"

definition sigma0 :: "int \<Rightarrow> int" where
  "sigma0 x = rotr32 7 x XOR rotr32 18 x XOR shr32 3 x"

definition sigma1 :: "int \<Rightarrow> int" where
  "sigma1 x = rotr32 17 x XOR rotr32 19 x XOR shr32 10 x"

definition Sigma0 :: "int \<Rightarrow> int" where
  "Sigma0 x = rotr32 2 x XOR rotr32 13 x XOR rotr32 22 x"

definition Sigma1 :: "int \<Rightarrow> int" where
  "Sigma1 x = rotr32 6 x XOR rotr32 11 x XOR rotr32 25 x"

text \<open>
  The message schedule: \<open>win\<close> holds the last 16 words, newest first, so that
  \<open>W[t] = sigma1 W[t-2] + W[t-7] + sigma0 W[t-15] + W[t-16]\<close>.
\<close>

fun sha256_schedule :: "nat \<Rightarrow> int list \<Rightarrow> int list \<Rightarrow> int list" where
  "sha256_schedule 0 win acc = rev acc"
| "sha256_schedule (Suc n) win acc =
     (let x = add32 (add32 (sigma1 (win ! 1)) (win ! 6)) (add32 (sigma0 (win ! 14)) (win ! 15))
      in sha256_schedule n (x # take 15 win) (x # acc))"

fun sha256_round :: "int list \<Rightarrow> (int \<times> int) \<Rightarrow> int list" where
  "sha256_round [a, b, c, d, e, f, g, h] (k, w) =
     (let t1 = add32 (add32 (add32 h (Sigma1 e))
                 (add32 ((e AND f) XOR ((4294967295 - e) AND g)) k)) w;
          t2 = add32 (Sigma0 a) ((a AND b) XOR (a AND c) XOR (b AND c))
      in [add32 t1 t2, a, b, c, add32 d t1, e, f, g])"
| "sha256_round st _ = st"

definition sha256_block :: "int list \<Rightarrow> int list \<Rightarrow> int list" where
  "sha256_block h blk =
     (let w0 = map big_endian (chunks 16 4 blk);
          w = w0 @ sha256_schedule 48 (rev w0) [];
          st = foldl sha256_round h (zip sha256_K w)
      in map2 add32 h st)"

text \<open>
  \<open>sha256.Sum256\<close> returns a \<open>[32]byte\<close>, modelled by a 256-bit word whose most
  significant byte is element 0 of the array.
\<close>

definition sha256_Sum256 :: "byte list \<Rightarrow> 256 word" where
  "sha256_Sum256 m =
     (let p = sha256_pad (map uint m);
          h = foldl sha256_block sha256_init (chunks (length p div 64) 64 p)
      in word_of_int (foldl (\<lambda>acc x. acc * 4294967296 + x) 0 h))"

text \<open>The verb \<open>%x\<close> prints every byte of the array as two lowercase hexadecimal digits.\<close>

definition hex_digit :: "int \<Rightarrow> rune" where
  "hex_digit d = (if d < 10 then 0x30 + d else 0x61 + (d - 10))"

fun hex_digits :: "nat \<Rightarrow> int \<Rightarrow> gostring" where
  "hex_digits 0 v = []"
| "hex_digits (Suc n) v = hex_digits n (v div 16) @ [hex_digit (v mod 16)]"

definition Sprintf_x :: "256 word \<Rightarrow> gostring" where
  "Sprintf_x h = hex_digits 64 (uint h)"

section \<open>The analyzer\<close>

subsection \<open>\<open>checkPalindrome\<close>\<close>

text \<open>
  \<open>regexp.MustCompile(`\s+`).ReplaceAllString(s, "")\<close>: every leftmost, longest run of
  \<open>\s\<close> code points is replaced by the empty string.
\<close>

function ReplaceAllString_spaces :: "gostring \<Rightarrow> gostring" where
  "ReplaceAllString_spaces [] = []"
| "ReplaceAllString_spaces (r # rs) =
     (if re_space r then ReplaceAllString_spaces (dropWhile re_space rs)
      else r # ReplaceAllString_spaces rs)"
  by pat_completeness auto
termination
  by (relation "measure length") (auto simp: length_dropWhile_le less_Suc_eq_le)

text \<open>
  The loop \<open>for i, j := 0, len(runes)-1; i < j; i, j = i+1, j-1\<close>. The indices are Go
  \<open>int\<close>s: \<open>j\<close> starts at \<open>-1\<close> on the empty slice.
\<close>

function palindrome_loop :: "rune list \<Rightarrow> int \<Rightarrow> int \<Rightarrow> bool" where
  "palindrome_loop rs i j =
     (if i < j
      then (if rs ! nat i \<noteq> rs ! nat j then False else palindrome_loop rs (i + 1) (j - 1))
      else True)"
  by pat_completeness auto
termination
  by (relation "measure (\<lambda>(rs, i, j). nat (j - i))") auto

declare palindrome_loop.simps [simp del]

text \<open>
  The same loop with the bounds check Go makes on every read of the slice: \<open>None\<close> is
  the run-time panic "index out of range".
\<close>

function palindrome_loop_checked :: "rune list \<Rightarrow> int \<Rightarrow> int \<Rightarrow> bool option" where
  "palindrome_loop_checked rs i j =
     (if i < j
      then (if 0 \<le> i \<and> i < int (length rs) \<and> 0 \<le> j \<and> j < int (length rs)
            then (if rs ! nat i \<noteq> rs ! nat j then Some False
                  else palindrome_loop_checked rs (i + 1) (j - 1))
            else None)
      else Some True)"
  by pat_completeness auto
termination
  by (relation "measure (\<lambda>(rs, i, j). nat (j - i))") auto

declare palindrome_loop_checked.simps [simp del]

definition checkPalindrome :: "(rune \<Rightarrow> rune) \<Rightarrow> gostring \<Rightarrow> bool" where
  "checkPalindrome tbl s =
     (let cleaned = strings_ToLower tbl (ReplaceAllString_spaces s);
          rs = cleaned
      in palindrome_loop rs 0 (int (length rs) - 1))"

subsection \<open>\<open>countUniqueCharacters\<close>, \<open>countWords\<close>, \<open>buildCharacterFrequencyMap\<close>\<close>

text \<open>The body of the loop over the lowered string, and the loop as a fold.\<close>

definition charSet_step :: "rune \<Rightarrow> (rune \<rightharpoonup> bool) \<Rightarrow> (rune \<rightharpoonup> bool)" where
  "charSet_step r charSet =
     (if r \<noteq> 0x20 \<and> r \<noteq> 0x09 \<and> r \<noteq> 0x0A then charSet(r \<mapsto> True) else charSet)"

definition countUniqueCharacters :: "(rune \<Rightarrow> rune) \<Rightarrow> gostring \<Rightarrow> int" where
  "countUniqueCharacters tbl s =
     int (card (dom (fold charSet_step (strings_ToLower tbl s) Map.empty)))"

definition countWords :: "gostring \<Rightarrow> int" where
  "countWords s = int (length (strings_Fields s))"

text \<open>
  \<open>freqMap[string(r)]++\<close>: a missing key reads as 0. \<open>string(r)\<close> is the string of the
  one code point \<open>r\<close>.
\<close>

definition freqMap_step :: "rune \<Rightarrow> (gostring \<rightharpoonup> int) \<Rightarrow> (gostring \<rightharpoonup> int)" where
  "freqMap_step r freqMap =
     (if r \<noteq> 0x20 \<and> r \<noteq> 0x09 \<and> r \<noteq> 0x0A
      then freqMap([r] \<mapsto> (case freqMap [r] of None \<Rightarrow> 0 | Some n \<Rightarrow> n) + 1)
      else freqMap)"

definition buildCharacterFrequencyMap :: "(rune \<Rightarrow> rune) \<Rightarrow> gostring \<Rightarrow> (gostring \<rightharpoonup> int)" where
  "buildCharacterFrequencyMap tbl s = fold freqMap_step (strings_ToLower tbl s) Map.empty"

subsection \<open>\<open>calculateSHA256\<close> and \<open>analyzeString\<close>\<close>

definition calculateSHA256 :: "gostring \<Rightarrow> gostring" where
  "calculateSHA256 s = Sprintf_x (sha256_Sum256 (bytes_of s))"

definition analyzeString :: "(rune \<Rightarrow> rune) \<Rightarrow> gostring \<Rightarrow> StringProperties" where
  "analyzeString tbl v =
     \<lparr> Length = int (length v),
       IsPalindrome = checkPalindrome tbl v,
       UniqueCharacters = countUniqueCharacters tbl v,
       WordCount = countWords v,
       SHA256Hash = calculateSHA256 v,
       CharacterFrequencyMap = buildCharacterFrequencyMap tbl v \<rparr>"

section \<open>The filter engine\<close>

text \<open>
  \<open>matchesFilters\<close>: one guard per filter, each returning \<open>false\<close> at once. A guard
  reads through the pointer only behind its \<open>!= nil\<close> test.
\<close>

definition matchesFilters :: "(rune \<Rightarrow> rune) \<Rightarrow> AnalyzedString \<Rightarrow> FilterParams \<Rightarrow> bool" where
  "matchesFilters tbl analyzed params =
     (if (case fpIsPalindrome params of None \<Rightarrow> False
          | Some b \<Rightarrow> IsPalindrome (Properties analyzed) \<noteq> b) then False
      else if (case fpMinLength params of None \<Rightarrow> False
          | Some n \<Rightarrow> Length (Properties analyzed) < n) then False
      else if (case fpMaxLength params of None \<Rightarrow> False
          | Some n \<Rightarrow> Length (Properties analyzed) > n) then False
      else if (case fpWordCount params of None \<Rightarrow> False
          | Some n \<Rightarrow> WordCount (Properties analyzed) \<noteq> n) then False
      else (case fpContainsCharacter params of None \<Rightarrow> True
          | Some c \<Rightarrow>
              (let char = strings_ToLower tbl c
               in if CharacterFrequencyMap (Properties analyzed) char = None then False
                  else True)))"

section \<open>The query translator\<close>

subsection \<open>\<open>strings.Contains\<close> and the three regular expressions\<close>

fun HasPrefix :: "gostring \<Rightarrow> gostring \<Rightarrow> bool" where
  "HasPrefix s [] = True"
| "HasPrefix [] (p # ps) = False"
| "HasPrefix (c # cs) (p # ps) = (c = p \<and> HasPrefix cs ps)"

fun strings_Contains :: "gostring \<Rightarrow> gostring \<Rightarrow> bool" where
  "strings_Contains [] substr = (substr = [])"
| "strings_Contains (c # cs) substr = (HasPrefix (c # cs) substr \<or> strings_Contains cs substr)"

text \<open>\<open>strip_lit lit s\<close>: the rest of \<open>s\<close> after the literal \<open>lit\<close>, when \<open>s\<close> starts with it.\<close>

fun strip_lit :: "gostring \<Rightarrow> gostring \<Rightarrow> gostring option" where
  "strip_lit [] s = Some s"
| "strip_lit (p # ps) [] = None"
| "strip_lit (p # ps) (c # cs) = (if p = c then strip_lit ps cs else None)"

text \<open>
  \<open>FindStringSubmatch\<close> returns the leftmost match: the expression is tried at every
  position of the text from left to right, the end of the text included.
\<close>

fun find_leftmost :: "(gostring \<Rightarrow> 'a option) \<Rightarrow> gostring \<Rightarrow> 'a option" where
  "find_leftmost m [] = m []"
| "find_leftmost m (c # cs) =
     (case m (c # cs) of Some x \<Rightarrow> Some x | None \<Rightarrow> find_leftmost m cs)"

text \<open>
  A literal followed by \<open>(\d+)\<close>, matched at the start of \<open>s\<close>: the group is greedy,
  it takes the longest run of digits, and needs one digit at least. The result is the
  text of group 1.
\<close>

definition lit_digits_at :: "gostring \<Rightarrow> gostring \<Rightarrow> gostring option" where
  "lit_digits_at lit s =
     (case strip_lit lit s of
        None \<Rightarrow> None
      | Some rest \<Rightarrow> (let ds = takeWhile re_digit rest in if ds = [] then None else Some ds))"

definition lengthPattern :: "gostring \<Rightarrow> gostring option" where
  "lengthPattern s = find_leftmost (lit_digits_at (runes ''longer than '')) s"

definition shorterPattern :: "gostring \<Rightarrow> gostring option" where
  "shorterPattern s = find_leftmost (lit_digits_at (runes ''shorter than '')) s"

text \<open>
  The expression \<open>(?:contain|with) (?:the |letter |character )?'?([a-z])'?\<close> at the
  start of \<open>s\<close>. The alternatives are tried in the order written and an optional part is
  tried present before absent; the first way that reaches the end of the expression is
  the match. The closing \<open>'?\<close> always succeeds and is outside the group.
\<close>

definition or_else :: "'a option \<Rightarrow> 'a option \<Rightarrow> 'a option" where
  "or_else a b = (case a of Some x \<Rightarrow> Some x | None \<Rightarrow> b)"

definition lower_at :: "gostring \<Rightarrow> gostring option" where
  "lower_at s = (case s of [] \<Rightarrow> None | c # _ \<Rightarrow> if re_lower c then Some [c] else None)"

definition quoted_lower_at :: "gostring \<Rightarrow> gostring option" where
  "quoted_lower_at s =
     or_else (case strip_lit [0x27] s of None \<Rightarrow> None | Some t \<Rightarrow> lower_at t) (lower_at s)"

definition after_lit :: "gostring \<Rightarrow> (gostring \<Rightarrow> 'a option) \<Rightarrow> gostring \<Rightarrow> 'a option" where
  "after_lit lit m s = (case strip_lit lit s of None \<Rightarrow> None | Some t \<Rightarrow> m t)"

definition article_at :: "gostring \<Rightarrow> gostring option" where
  "article_at s =
     or_else (after_lit (runes ''the '') quoted_lower_at s)
       (or_else (after_lit (runes ''letter '') quoted_lower_at s)
          (or_else (after_lit (runes ''character '') quoted_lower_at s)
             (quoted_lower_at s)))"

definition charPattern_at :: "gostring \<Rightarrow> gostring option" where
  "charPattern_at s =
     or_else (after_lit (runes ''contain '') article_at s)
             (after_lit (runes ''with '') article_at s)"

definition charPattern :: "gostring \<Rightarrow> gostring option" where
  "charPattern s = find_leftmost charPattern_at s"

subsection \<open>\<open>fmt.Sscanf(matches[1], "%d", &n)\<close> and the arithmetic of \<open>int\<close>\<close>

definition decimal :: "gostring \<Rightarrow> int" where
  "decimal ds = foldl (\<lambda>acc d. acc * 10 + (d - 0x30)) 0 ds"

text \<open>
  The verb \<open>%d\<close> reads the digits with \<open>strconv.ParseInt(tok, 10, 64)\<close>. A number above
  \<open>math.MaxInt64\<close> is an error: \<open>Sscanf\<close> returns it and leaves the variable as it was.
  The source drops what \<open>Sscanf\<close> returns.
\<close>

definition Sscanf_d :: "gostring \<Rightarrow> int \<Rightarrow> int" where
  "Sscanf_d ds var = (if decimal ds \<le> 9223372036854775807 then decimal ds else var)"

text \<open>Addition and subtraction of \<open>int\<close> wrap around in two's complement.\<close>

definition wrap_int :: "int \<Rightarrow> int" where
  "wrap_int x = (x + 9223372036854775808) mod 18446744073709551616 - 9223372036854775808"

subsection \<open>\<open>parseNaturalLanguageQuery\<close>\<close>

datatype parse_error = UnableToParse

text \<open>The six statements of the function body, each on the map built so far.\<close>

definition word_count_rules :: "gostring \<Rightarrow> filters \<Rightarrow> filters" where
  "word_count_rules lowerQuery filters =
     (if strings_Contains lowerQuery (runes ''single word'')
        then filters(''word_count'' \<mapsto> IntV 1)
      else if strings_Contains lowerQuery (runes ''two word'')
              \<or> strings_Contains lowerQuery (runes ''2 word'')
        then filters(''word_count'' \<mapsto> IntV 2)
      else if strings_Contains lowerQuery (runes ''three word'')
              \<or> strings_Contains lowerQuery (runes ''3 word'')
        then filters(''word_count'' \<mapsto> IntV 3)
      else filters)"

definition palindrome_rule :: "gostring \<Rightarrow> filters \<Rightarrow> filters" where
  "palindrome_rule lowerQuery filters =
     (if strings_Contains lowerQuery (runes ''palindrom'')
        then filters(''is_palindrome'' \<mapsto> BoolV True)
      else filters)"

definition longer_rule :: "gostring \<Rightarrow> filters \<Rightarrow> filters" where
  "longer_rule lowerQuery filters =
     (case lengthPattern lowerQuery of
        None \<Rightarrow> filters
      | Some m1 \<Rightarrow>
          (let minLength = Sscanf_d m1 0
           in filters(''min_length'' \<mapsto> IntV (wrap_int (minLength + 1)))))"

definition shorter_rule :: "gostring \<Rightarrow> filters \<Rightarrow> filters" where
  "shorter_rule lowerQuery filters =
     (case shorterPattern lowerQuery of
        None \<Rightarrow> filters
      | Some m1 \<Rightarrow>
          (let maxLength = Sscanf_d m1 0
           in filters(''max_length'' \<mapsto> IntV (wrap_int (maxLength - 1)))))"

definition char_rule :: "gostring \<Rightarrow> filters \<Rightarrow> filters" where
  "char_rule lowerQuery filters =
     (case charPattern lowerQuery of
        None \<Rightarrow> filters
      | Some m1 \<Rightarrow> filters(''contains_character'' \<mapsto> StrV m1))"

definition vowel_rules :: "gostring \<Rightarrow> filters \<Rightarrow> filters" where
  "vowel_rules lowerQuery filters =
     (if strings_Contains lowerQuery (runes ''first vowel'')
        then filters(''contains_character'' \<mapsto> StrV (runes ''a''))
      else if strings_Contains lowerQuery (runes ''last vowel'')
        then filters(''contains_character'' \<mapsto> StrV (runes ''u''))
      else filters)"

definition parsed_filters :: "gostring \<Rightarrow> filters" where
  "parsed_filters lowerQuery =
     vowel_rules lowerQuery (char_rule lowerQuery (shorter_rule lowerQuery
       (longer_rule lowerQuery (palindrome_rule lowerQuery
          (word_count_rules lowerQuery Map.empty)))))"

definition parseNaturalLanguageQuery :: "(rune \<Rightarrow> rune) \<Rightarrow> gostring \<Rightarrow> parse_error + filters" where
  "parseNaturalLanguageQuery tbl query =
     (let lowerQuery = strings_ToLower tbl query;
          filters = parsed_filters lowerQuery
      in if dom filters = {} then Inl UnableToParse else Inr filters)"

subsection \<open>\<open>convertParsedFiltersToParams\<close>\<close>

text \<open>A type assertion \<open>parsed[k].(T)\<close> with \<open>ok\<close>: the value, when the key holds a \<open>T\<close>.\<close>

definition as_bool :: "iface option \<Rightarrow> bool option" where
  "as_bool v = (case v of Some (BoolV b) \<Rightarrow> Some b | _ \<Rightarrow> None)"

definition as_int :: "iface option \<Rightarrow> int option" where
  "as_int v = (case v of Some (IntV n) \<Rightarrow> Some n | _ \<Rightarrow> None)"

definition as_string :: "iface option \<Rightarrow> gostring option" where
  "as_string v = (case v of Some (StrV s) \<Rightarrow> Some s | _ \<Rightarrow> None)"

definition convertParsedFiltersToParams :: "filters \<Rightarrow> FilterParams" where
  "convertParsedFiltersToParams parsed =
     \<lparr> fpIsPalindrome = as_bool (parsed ''is_palindrome''),
       fpMinLength = as_int (parsed ''min_length''),
       fpMaxLength = as_int (parsed ''max_length''),
       fpWordCount = as_int (parsed ''word_count''),
       fpContainsCharacter = as_string (parsed ''contains_character'') \<rparr>"

section \<open>The handlers and the store\<close>

record NaturalLanguageQuery =
  Original :: gostring
  ParsedFilters :: filters

record FilterResponse =
  Data :: "AnalyzedString list"
  Count :: int
  FiltersApplied :: filters
  InterpretedQuery :: "NaturalLanguageQuery option"

text \<open>What a handler writes with \<open>c.JSON\<close>: the status and the body that matters.\<close>

datatype response =
    StatusBadRequest
  | StatusUnprocessableEntity
  | StatusConflict
  | StatusNotFound
  | StatusNoContent
  | StatusCreated AnalyzedString
  | StatusOK AnalyzedString
  | StatusOK_list FilterResponse

text \<open>
  \<open>c.ShouldBindJSON(&req)\<close>: \<open>body\<close> is the \<open>value\<close> field of the decoded request body,
  \<open>None\<close> when the body does not decode. The tag \<open>binding:"required"\<close> rejects the
  empty string.
\<close>

definition ShouldBindJSON :: "gostring option \<Rightarrow> gostring option" where
  "ShouldBindJSON body =
     (case body of None \<Rightarrow> None | Some v \<Rightarrow> if v = [] then None else Some v)"

text \<open>
  Every handler takes the store and returns the store it leaves. \<open>now\<close> is what
  \<open>time.Now().UTC()\<close> reads.
\<close>

definition createString ::
  "(rune \<Rightarrow> rune) \<Rightarrow> store \<Rightarrow> Time \<Rightarrow> gostring option \<Rightarrow> response \<times> store" where
  "createString tbl stringStore now body =
     (case ShouldBindJSON body of
        None \<Rightarrow> (StatusBadRequest, stringStore)
      | Some v \<Rightarrow>
          if length (bytes_of v) = 0 \<and> v \<noteq> [] then (StatusUnprocessableEntity, stringStore)
          else
            (let props = analyzeString tbl v;
                 hash = SHA256Hash props
             in if stringStore hash \<noteq> None then (StatusConflict, stringStore)
                else
                  (let analyzed = \<lparr> ID = hash, Value = v, Properties = props, CreatedAt = now \<rparr>
                   in (StatusCreated analyzed, stringStore(hash \<mapsto> analyzed)))))"

definition getString :: "store \<Rightarrow> gostring \<Rightarrow> response" where
  "getString stringStore v =
     (let hash = calculateSHA256 v
      in case stringStore hash of None \<Rightarrow> StatusNotFound | Some analyzed \<Rightarrow> StatusOK analyzed)"

definition deleteString :: "store \<Rightarrow> gostring \<Rightarrow> response \<times> store" where
  "deleteString stringStore v =
     (let hash = calculateSHA256 v
      in if stringStore hash = None then (StatusNotFound, stringStore)
         else (StatusNoContent, stringStore(hash := None)))"

text \<open>
  \<open>for _, analyzed := range stringStore\<close> visits every entry once, in an order Go leaves
  unspecified: \<open>ks\<close> is the order in which the keys are visited.
\<close>

definition range_order :: "store \<Rightarrow> gostring list \<Rightarrow> bool" where
  "range_order stringStore ks = (distinct ks \<and> set ks = dom stringStore)"

definition collect_matching ::
  "(rune \<Rightarrow> rune) \<Rightarrow> store \<Rightarrow> FilterParams \<Rightarrow> gostring list \<Rightarrow> AnalyzedString list" where
  "collect_matching tbl stringStore params ks =
     List.map_filter
       (\<lambda>k. case stringStore k of
               None \<Rightarrow> None
             | Some analyzed \<Rightarrow> if matchesFilters tbl analyzed params then Some analyzed else None)
       ks"

text \<open>The \<open>less\<close> function handed to \<open>sort.Slice\<close>: \<open>results[i].CreatedAt.Before(results[j].CreatedAt)\<close>.\<close>

definition CreatedAt_Before :: "AnalyzedString \<Rightarrow> AnalyzedString \<Rightarrow> bool" where
  "CreatedAt_Before a b = (CreatedAt a < CreatedAt b)"

text \<open>
  \<open>sort.Slice\<close> is the parameter \<open>srt\<close>. Its documentation promises a slice with the
  same elements, sorted by \<open>less\<close>, and no stability.
\<close>

type_synonym sorter =
  "(AnalyzedString \<Rightarrow> AnalyzedString \<Rightarrow> bool) \<Rightarrow> AnalyzedString list \<Rightarrow> AnalyzedString list"

definition sort_Slice_contract :: "sorter \<Rightarrow> bool" where
  "sort_Slice_contract srt =
     (\<forall>xs. mset (srt CreatedAt_Before xs) = mset xs
          \<and> sorted_wrt (\<lambda>a b. \<not> CreatedAt_Before b a) (srt CreatedAt_Before xs))"

text \<open>
  On a short slice \<open>sort.Slice\<close> runs an insertion sort: each element moves left past
  the elements it is \<open>less\<close> than. \<open>insert_left\<close> works on the sorted prefix, last
  element first.
\<close>

fun insert_left :: "('a \<Rightarrow> 'a \<Rightarrow> bool) \<Rightarrow> 'a \<Rightarrow> 'a list \<Rightarrow> 'a list" where
  "insert_left lt x [] = [x]"
| "insert_left lt x (y # ys) = (if lt x y then y # insert_left lt x ys else x # y # ys)"

definition insertionSort :: "('a \<Rightarrow> 'a \<Rightarrow> bool) \<Rightarrow> 'a list \<Rightarrow> 'a list" where
  "insertionSort lt xs = rev (foldl (\<lambda>pre x. insert_left lt x pre) [] xs)"

definition filtersApplied_of :: "FilterParams \<Rightarrow> filters" where
  "filtersApplied_of params =
     (let fa = Map.empty;
          fa = (case fpIsPalindrome params of None \<Rightarrow> fa
                | Some b \<Rightarrow> fa(''is_palindrome'' \<mapsto> BoolV b));
          fa = (case fpMinLength params of None \<Rightarrow> fa | Some n \<Rightarrow> fa(''min_length'' \<mapsto> IntV n));
          fa = (case fpMaxLength params of None \<Rightarrow> fa | Some n \<Rightarrow> fa(''max_length'' \<mapsto> IntV n));
          fa = (case fpWordCount params of None \<Rightarrow> fa | Some n \<Rightarrow> fa(''word_count'' \<mapsto> IntV n));
          fa = (case fpContainsCharacter params of None \<Rightarrow> fa
                | Some c \<Rightarrow> fa(''contains_character'' \<mapsto> StrV c))
      in fa)"

text \<open>\<open>bound\<close> is what \<open>c.ShouldBindQuery(&params)\<close> yields, \<open>None\<close> when it fails.\<close>

definition getAllStrings ::
  "(rune \<Rightarrow> rune) \<Rightarrow> sorter \<Rightarrow> gostring list \<Rightarrow> store \<Rightarrow> FilterParams option \<Rightarrow> response" where
  "getAllStrings tbl srt ks stringStore bound =
     (case bound of
        None \<Rightarrow> StatusBadRequest
      | Some params \<Rightarrow>
          (let results = collect_matching tbl stringStore params ks;
               results = srt CreatedAt_Before results
           in StatusOK_list
                \<lparr> Data = results, Count = int (length results),
                  FiltersApplied = filtersApplied_of params, InterpretedQuery = None \<rparr>))"

definition filterByNaturalLanguage ::
  "(rune \<Rightarrow> rune) \<Rightarrow> sorter \<Rightarrow> gostring list \<Rightarrow> store \<Rightarrow> gostring \<Rightarrow> response \<times> store" where
  "filterByNaturalLanguage tbl srt ks stringStore query =
     (if query = [] then (StatusBadRequest, stringStore)
      else case parseNaturalLanguageQuery tbl query of
             Inl err \<Rightarrow> (StatusBadRequest, stringStore)
           | Inr parsedFilters \<Rightarrow>
               (let filterParams = convertParsedFiltersToParams parsedFilters;
                    results = collect_matching tbl stringStore filterParams ks;
                    results = srt CreatedAt_Before results
                in (StatusOK_list
                      \<lparr> Data = results, Count = int (length results),
                        FiltersApplied = Map.empty,
                        InterpretedQuery =
                          Some \<lparr> Original = query, ParsedFilters = parsedFilters \<rparr> \<rparr>,
                    stringStore)))"

text \<open>The filter set with every field \<open>nil\<close>: \<open>GET /strings\<close> without query parameters.\<close>

definition no_filters :: FilterParams where
  "no_filters = \<lparr> fpIsPalindrome = None, fpMinLength = None, fpMaxLength = None,
                  fpWordCount = None, fpContainsCharacter = None \<rparr>"

text \<open>
  The requests that change the store, and the store after a sequence of them, starting
  from the empty map the process starts with.
\<close>

datatype request = POST_strings "gostring option" Time | DELETE_strings gostring

fun serve :: "(rune \<Rightarrow> rune) \<Rightarrow> store \<Rightarrow> request \<Rightarrow> store" where
  "serve tbl stringStore (POST_strings body now) = snd (createString tbl stringStore now body)"
| "serve tbl stringStore (DELETE_strings v) = snd (deleteString stringStore v)"

definition store_after :: "(rune \<Rightarrow> rune) \<Rightarrow> request list \<Rightarrow> store" where
  "store_after tbl reqs = foldl (serve tbl) Map.empty reqs"

section \<open>The properties as the specification words them\<close>

text \<open>
  The palindrome property in the words of the specification: remove the whitespace,
  fold the case, compare with the reverse. What counts as whitespace is the parameter
  \<open>whitespace\<close>.
\<close>


definition spec_isPalindrome :: "(rune \<Rightarrow> bool) \<Rightarrow> (rune \<Rightarrow> rune) \<Rightarrow> gostring \<Rightarrow> bool" where
  "spec_isPalindrome whitespace tbl s =
     (let folded = strings_ToLower tbl (filter (\<lambda>r. \<not> whitespace r) s) in folded = rev folded)"

text \<open>
  The code points that the unique-character count and the frequency map are about: the
  case-folded string without space, horizontal tab and newline.
\<close>

definition counted_runes :: "(rune \<Rightarrow> rune) \<Rightarrow> gostring \<Rightarrow> gostring" where
  "counted_runes tbl s = filter (\<lambda>r. r \<notin> {0x20, 0x09, 0x0A}) (strings_ToLower tbl s)"

text \<open>The sum of the values of a map.\<close>

definition values_sum :: "('k \<rightharpoonup> int) \<Rightarrow> int" where
  "values_sum m = (\<Sum>k \<in> dom m. case m k of None \<Rightarrow> 0 | Some n \<Rightarrow> n)"

text \<open>
  What the specification says of every stored record: its key is its \<open>id\<close>, the \<open>id\<close> is
  the hash of the value, the \<open>contentHash\<close> property is the \<open>id\<close>, and the properties are
  what analysing the value gives.
\<close>

definition store_invariant :: "(rune \<Rightarrow> rune) \<Rightarrow> store \<Rightarrow> bool" where
  "store_invariant tbl stringStore =
     (\<forall>k a. stringStore k = Some a \<longrightarrow>
        k = ID a \<and> ID a = calculateSHA256 (Value a) \<and> SHA256Hash (Properties a) = ID a
        \<and> Properties a = analyzeString tbl (Value a))"

text \<open>
  A query contains the pattern "\<open>lit\<close> N", and is translated from it: \<open>ds\<close> is a maximal
  run of decimal digits that follows \<open>lit\<close>, and \<open>lit\<close> is followed by a digit at no
  position further left.
\<close>

definition first_number_after :: "gostring \<Rightarrow> gostring \<Rightarrow> gostring \<Rightarrow> bool" where
  "first_number_after lit lowerQuery ds =
     (\<exists>pre post.
        lowerQuery = pre @ lit @ ds @ post
        \<and> ds \<noteq> [] \<and> (\<forall>d \<in> set ds. re_digit d)
        \<and> (post = [] \<or> \<not> re_digit (hd post))
        \<and> (\<forall>i < length pre. \<forall>d rest. drop i lowerQuery = lit @ d # rest \<longrightarrow> \<not> re_digit d))"

text \<open>
  The translator in the words of the specification: nine rules applied in the declared
  order, each on its own, a later match for the same key overwriting an earlier one.
\<close>

definition spec_rule :: "bool \<Rightarrow> string \<Rightarrow> iface \<Rightarrow> filters \<Rightarrow> filters" where
  "spec_rule matched key v filters = (if matched then filters(key \<mapsto> v) else filters)"

definition spec_last_match_wins :: "gostring \<Rightarrow> filters" where
  "spec_last_match_wins lowerQuery =
     (spec_rule (strings_Contains lowerQuery (runes ''last vowel''))
        ''contains_character'' (StrV (runes ''u''))
      (spec_rule (strings_Contains lowerQuery (runes ''first vowel''))
        ''contains_character'' (StrV (runes ''a''))
      (char_rule lowerQuery
      (shorter_rule lowerQuery
      (longer_rule lowerQuery
      (spec_rule (strings_Contains lowerQuery (runes ''palindrom''))
        ''is_palindrome'' (BoolV True)
      (spec_rule (strings_Contains lowerQuery (runes ''three word'')
                  \<or> strings_Contains lowerQuery (runes ''3 word''))
        ''word_count'' (IntV 3)
      (spec_rule (strings_Contains lowerQuery (runes ''two word'')
                  \<or> strings_Contains lowerQuery (runes ''2 word''))
        ''word_count'' (IntV 2)
      (spec_rule (strings_Contains lowerQuery (runes ''single word''))
        ''word_count'' (IntV 1)
       Map.empty)))))))))"

text \<open>
  \<open>listAll()\<close> is \<open>GET /strings\<close> without query parameters; the sequence it returns is
  the \<open>Data\<close> of the response.
\<close>

definition data_of :: "response \<Rightarrow> AnalyzedString list" where
  "data_of resp = (case resp of StatusOK_list r \<Rightarrow> Data r | _ \<Rightarrow> [])"

section \<open>Example inputs\<close>

text \<open>The record of \<open>"radar"\<close> and a filter set with every predicate present.\<close>

definition radar :: AnalyzedString where
  "radar = \<lparr> ID = calculateSHA256 (runes ''radar''), Value = runes ''radar'',
             Properties = analyzeString (\<lambda>r. r) (runes ''radar''), CreatedAt = 0 \<rparr>"

definition radar_filters :: FilterParams where
  "radar_filters = \<lparr> fpIsPalindrome = Some True, fpMinLength = Some 5, fpMaxLength = Some 5,
                      fpWordCount = Some 1, fpContainsCharacter = Some (runes ''R'') \<rparr>"

text \<open>A value is posted, deleted and posted again.\<close>

definition post_delete_post :: "request list" where
  "post_delete_post = [POST_strings (Some (runes ''abc'')) 0, DELETE_strings (runes ''abc''),
                          POST_strings (Some (runes ''abc'')) 5]"

text \<open>Queries on which several rules fire.\<close>

definition several_rules_query :: gostring where
  "several_rules_query = runes ''Single word two word PALINDROMES with the first vowel''"

definition longer_shorter_query :: gostring where
  "longer_shorter_query = runes ''Strings LONGER than 10 and shorter than 20''"

text \<open>
  Two values posted at the same reading of the clock, and the three values of the
  specification posted at increasing readings.
\<close>

definition tie_requests :: "request list" where
  "tie_requests = [POST_strings (Some (runes ''b'')) 0, POST_strings (Some (runes ''a'')) 0]"

definition bac_requests :: "request list" where
  "bac_requests = [POST_strings (Some (runes ''b'')) 1, POST_strings (Some (runes ''a'')) 2,
                   POST_strings (Some (runes ''c'')) 3]"

section \<open>Verified properties\<close>

subsection \<open>The palindrome check\<close>

lemma filter_dropWhile_not: "filter (\<lambda>r. \<not> P r) (dropWhile P rs) = filter (\<lambda>r. \<not> P r) rs"
  by (induction rs) auto

lemma ReplaceAllString_spaces_filter:
  "ReplaceAllString_spaces s = filter (\<lambda>r. \<not> re_space r) s"
  by (induction s rule: ReplaceAllString_spaces.induct) (auto simp: filter_dropWhile_not)

text \<open>Every read of the loop is inside the slice: the loop does not panic.\<close>

lemma palindrome_loop_never_panics:
  "0 \<le> i \<Longrightarrow> j < int (length rs) \<Longrightarrow>
   palindrome_loop_checked rs i j = Some (palindrome_loop rs i j)"
proof (induction rs i j rule: palindrome_loop.induct)
  case (1 rs i j)
  show ?case
  proof (cases "i < j \<and> rs ! nat i = rs ! nat j")
    case True
    then have "palindrome_loop_checked rs (i + 1) (j - 1) = Some (palindrome_loop rs (i + 1) (j - 1))"
      using "1.IH" "1.prems" by simp
    with True "1.prems" show ?thesis
      by (subst palindrome_loop_checked.simps, subst palindrome_loop.simps) simp
  next
    case False
    with "1.prems" show ?thesis
      by (subst palindrome_loop_checked.simps, subst palindrome_loop.simps) auto
  qed
qed

lemma checkPalindrome_never_panics:
  "palindrome_loop_checked rs 0 (int (length rs) - 1)
     = Some (palindrome_loop rs 0 (int (length rs) - 1))"
  by (rule palindrome_loop_never_panics) simp_all

lemma palindrome_loop_inv:
  "0 \<le> i \<Longrightarrow> j = int (length rs) - 1 - i \<Longrightarrow>
   palindrome_loop rs i j =
     (\<forall>k. i \<le> k \<and> 2 * k < int (length rs) - 1 \<longrightarrow>
          rs ! nat k = rs ! nat (int (length rs) - 1 - k))"
proof (induction rs i j rule: palindrome_loop.induct)
  case (1 rs i j)
  show ?case
  proof (cases "i < j")
    case False
    with "1.prems" show ?thesis
      by (subst palindrome_loop.simps) auto
  next
    case True
    show ?thesis
    proof (cases "rs ! nat i = rs ! nat j")
      case False
      with True "1.prems" show ?thesis
        by (subst palindrome_loop.simps) auto
    next
      case eq: True
      have ih: "palindrome_loop rs (i + 1) (j - 1) =
        (\<forall>k. i + 1 \<le> k \<and> 2 * k < int (length rs) - 1 \<longrightarrow>
          rs ! nat k = rs ! nat (int (length rs) - 1 - k))"
        using "1.IH" [OF True] eq "1.prems" by simp
      have "palindrome_loop rs i j = palindrome_loop rs (i + 1) (j - 1)"
        using True eq by (subst palindrome_loop.simps) simp
      also have "\<dots> = (\<forall>k. i \<le> k \<and> 2 * k < int (length rs) - 1 \<longrightarrow>
          rs ! nat k = rs ! nat (int (length rs) - 1 - k))"
        unfolding ih
      proof (intro iffI allI impI)
        fix k
        assume h: "\<forall>k. i + 1 \<le> k \<and> 2 * k < int (length rs) - 1 \<longrightarrow>
          rs ! nat k = rs ! nat (int (length rs) - 1 - k)"
          and k: "i \<le> k \<and> 2 * k < int (length rs) - 1"
        show "rs ! nat k = rs ! nat (int (length rs) - 1 - k)"
        proof (cases "k = i")
          case True
          then show ?thesis using eq "1.prems" by simp
        next
          case False
          then show ?thesis using h k by auto
        qed
      next
        fix k
        assume h: "\<forall>k. i \<le> k \<and> 2 * k < int (length rs) - 1 \<longrightarrow>
          rs ! nat k = rs ! nat (int (length rs) - 1 - k)"
          and k: "i + 1 \<le> k \<and> 2 * k < int (length rs) - 1"
        then show "rs ! nat k = rs ! nat (int (length rs) - 1 - k)" by auto
      qed
      finally show ?thesis .
    qed
  qed
qed

lemma mirrored_iff_rev:
  "(\<forall>k. (0::int) \<le> k \<and> 2 * k < int (length rs) - 1 \<longrightarrow>
          rs ! nat k = rs ! nat (int (length rs) - 1 - k)) = (rs = rev rs)"
proof
  assume h: "\<forall>k. (0::int) \<le> k \<and> 2 * k < int (length rs) - 1 \<longrightarrow>
          rs ! nat k = rs ! nat (int (length rs) - 1 - k)"
  have mirror: "rs ! n = rs ! (length rs - Suc n)" if n: "n < length rs" for n
  proof -
    consider "2 * n < length rs - 1" | "2 * n = length rs - 1" | "2 * n > length rs - 1"
      by linarith
    then show ?thesis
    proof cases
      case 1
      then have "rs ! nat (int n) = rs ! nat (int (length rs) - 1 - int n)"
        using n by (intro h [rule_format]) auto
      moreover have "nat (int (length rs) - 1 - int n) = length rs - Suc n"
        using n by linarith
      ultimately show ?thesis by simp
    next
      case 2
      then have "length rs - Suc n = n" using n by linarith
      then show ?thesis by simp
    next
      case 3
      define m where "m = length rs - Suc n"
      have m: "2 * m < length rs - 1" "m < length rs" "length rs - Suc m = n"
        using 3 n by (auto simp: m_def)
      have "rs ! nat (int m) = rs ! nat (int (length rs) - 1 - int m)"
        using m by (intro h [rule_format]) auto
      moreover have "nat (int (length rs) - 1 - int m) = n" using m by linarith
      ultimately show ?thesis by (simp add: m_def)
    qed
  qed
  show "rs = rev rs"
  proof (rule nth_equalityI)
    show "length rs = length (rev rs)" by simp
  next
    fix n assume "n < length rs"
    then show "rs ! n = rev rs ! n" using mirror [of n] by (simp add: rev_nth)
  qed
next
  assume r: "rs = rev rs"
  show "\<forall>k. (0::int) \<le> k \<and> 2 * k < int (length rs) - 1 \<longrightarrow>
          rs ! nat k = rs ! nat (int (length rs) - 1 - k)"
  proof (intro allI impI)
    fix k :: int
    assume k: "0 \<le> k \<and> 2 * k < int (length rs) - 1"
    then have lt: "nat k < length rs" by linarith
    have "rs ! nat k = rev rs ! nat k" using r by simp
    also have "\<dots> = rs ! (length rs - Suc (nat k))" using lt by (simp add: rev_nth)
    also have "length rs - Suc (nat k) = nat (int (length rs) - 1 - k)" using k lt by linarith
    finally show "rs ! nat k = rs ! nat (int (length rs) - 1 - k)" .
  qed
qed

lemma palindrome_loop_rev: "palindrome_loop rs 0 (int (length rs) - 1) = (rs = rev rs)"
  using palindrome_loop_inv [of 0 "int (length rs) - 1" rs] mirrored_iff_rev [of rs] by simp

text \<open>
  C1 (as amended). For every string \<open>s\<close>, \<open>checkPalindrome\<close> is true if and only if the
  string obtained from \<open>s\<close> by removing every code point of the class \<open>\s\<close> of Go's
  regular expressions (tab, newline, form feed, carriage return, space and nothing else)
  and then lowering the case is equal to its reverse; a string that is empty after the
  removal is a palindrome.
\<close>

theorem checkPalindrome_spec:
  "checkPalindrome tbl s = spec_isPalindrome re_space tbl s
   \<and> (filter (\<lambda>r. \<not> re_space r) s = [] \<longrightarrow> checkPalindrome tbl s)"
  by (simp add: checkPalindrome_def spec_isPalindrome_def Let_def palindrome_loop_rev
      ReplaceAllString_spaces_filter strings_ToLower_def)

text \<open>The hypothesis of the second part holds of the string of one space.\<close>

theorem checkPalindrome_spec_witness:
  "filter (\<lambda>r. \<not> re_space r) (runes '' '') = [] \<and> checkPalindrome (\<lambda>r. r) (runes '' '')"
proof -
  have stripped: "filter (\<lambda>r. \<not> re_space r) (runes '' '') = []"
    by (simp add: runes_def re_space_def)
  with checkPalindrome_spec [of "\<lambda>r. r" "runes '' ''"] show ?thesis
    by blast
qed

text \<open>
  C1 as stated, with any whitespace removed, fails on a vertical tab followed by \<open>a\<close>:
  the vertical tab is whitespace (\<open>unicode.IsSpace\<close>) and outside \<open>\s\<close>, so the code
  keeps it and compares it with \<open>a\<close>.
\<close>

theorem checkPalindrome_any_whitespace_counterexample:
  "unicode_IsSpace 0x0B \<and> spec_isPalindrome unicode_IsSpace (\<lambda>r. r) [0x0B, 0x61]
   \<and> \<not> checkPalindrome (\<lambda>r. r) [0x0B, 0x61]"
  by (simp add: checkPalindrome_def spec_isPalindrome_def Let_def palindrome_loop_rev
      ReplaceAllString_spaces_filter strings_ToLower_def unicode_IsSpace_def re_space_def
      unicode_ToLower_def)

text \<open>The examples of the specification.\<close>

lemma checkPalindrome_examples:
  "checkPalindrome tbl (runes ''racecar'')"
  "checkPalindrome tbl (runes ''Race Car'')"
  "\<not> checkPalindrome tbl (runes ''hello'')"
  "checkPalindrome tbl (runes [])"
  by (simp_all add: checkPalindrome_def Let_def palindrome_loop_rev
      ReplaceAllString_spaces_filter strings_ToLower_def runes_def re_space_def
      unicode_ToLower_def)

subsection \<open>The word count\<close>

text \<open>The examples of the specification.\<close>

lemma countWords_examples:
  "countWords (runes ''hello world'') = 2"
  "countWords (runes ''   '') = 0"
  "countWords (runes ''one'') = 1"
  by (simp_all add: countWords_def strings_Fields_def runes_def unicode_IsSpace_def)

subsection \<open>The unique-character count and the frequency map\<close>

lemma dom_fold_charSet_step:
  "dom (fold charSet_step xs m) = dom m \<union> set (filter (\<lambda>r. r \<notin> {0x20, 0x09, 0x0A}) xs)"
  by (induction xs arbitrary: m) (auto simp: charSet_step_def)

lemma fold_freqMap_step_singleton:
  "fold freqMap_step xs m [r] =
     (if r \<in> set (filter (\<lambda>r. r \<notin> {0x20, 0x09, 0x0A}) xs)
      then Some ((case m [r] of None \<Rightarrow> 0 | Some n \<Rightarrow> n)
                 + int (count_list (filter (\<lambda>r. r \<notin> {0x20, 0x09, 0x0A}) xs) r))
      else m [r])"
proof (induction xs arbitrary: m)
  case Nil
  show ?case by simp
next
  case (Cons x xs)
  show ?case
  proof (cases "x \<noteq> 0x20 \<and> x \<noteq> 0x09 \<and> x \<noteq> 0x0A")
    case False
    then have step: "freqMap_step x m = m" by (auto simp: freqMap_step_def)
    from False show ?thesis by (auto simp: step Cons.IH)
  next
    case True
    then have step: "freqMap_step x m =
        m([x] \<mapsto> (case m [x] of None \<Rightarrow> 0 | Some n \<Rightarrow> n) + 1)"
      by (simp add: freqMap_step_def)
    from True show ?thesis
      by (auto simp: step Cons.IH split: option.splits)
  qed
qed

lemma fold_freqMap_step_other:
  "(\<And>r. k \<noteq> [r]) \<Longrightarrow> fold freqMap_step xs m k = m k"
  by (induction xs arbitrary: m) (auto simp: freqMap_step_def)

lemma dom_fold_freqMap_step:
  "dom (fold freqMap_step xs Map.empty) =
     (\<lambda>r. [r]) ` set (filter (\<lambda>r. r \<notin> {0x20, 0x09, 0x0A}) xs)"
proof (rule set_eqI)
  fix k :: gostring
  show "k \<in> dom (fold freqMap_step xs Map.empty)
    \<longleftrightarrow> k \<in> (\<lambda>r. [r]) ` set (filter (\<lambda>r. r \<notin> {0x20, 0x09, 0x0A}) xs)"
  proof (cases "\<exists>r. k = [r]")
    case True
    then obtain r where k: "k = [r]" by blast
    show ?thesis unfolding k
      by (auto simp: fold_freqMap_step_singleton dom_def split: if_splits)
  next
    case False
    then have "fold freqMap_step xs Map.empty k = None"
      using fold_freqMap_step_other [of k xs Map.empty] by simp
    with False show ?thesis by (auto simp: dom_def)
  qed
qed

lemma countUniqueCharacters_counted:
  "countUniqueCharacters tbl s = int (card (set (counted_runes tbl s)))"
  by (simp add: countUniqueCharacters_def counted_runes_def dom_fold_charSet_step)

lemma buildCharacterFrequencyMap_singleton:
  "buildCharacterFrequencyMap tbl s [r] =
     (if r \<in> set (counted_runes tbl s)
      then Some (int (count_list (counted_runes tbl s) r)) else None)"
  by (simp add: buildCharacterFrequencyMap_def counted_runes_def fold_freqMap_step_singleton)

lemma dom_buildCharacterFrequencyMap:
  "dom (buildCharacterFrequencyMap tbl s) = (\<lambda>r. [r]) ` set (counted_runes tbl s)"
  by (simp add: buildCharacterFrequencyMap_def counted_runes_def dom_fold_freqMap_step)

lemma card_dom_buildCharacterFrequencyMap:
  "card (dom (buildCharacterFrequencyMap tbl s)) = card (set (counted_runes tbl s))"
  unfolding dom_buildCharacterFrequencyMap
  by (rule card_image) (simp add: inj_on_def)

lemma values_sum_buildCharacterFrequencyMap:
  "values_sum (buildCharacterFrequencyMap tbl s) = int (length (counted_runes tbl s))"
proof -
  let ?cs = "counted_runes tbl s"
  have "values_sum (buildCharacterFrequencyMap tbl s)
      = (\<Sum>r \<in> set ?cs. case buildCharacterFrequencyMap tbl s [r] of None \<Rightarrow> 0 | Some n \<Rightarrow> n)"
    unfolding values_sum_def dom_buildCharacterFrequencyMap
    by (subst sum.reindex) (simp_all add: inj_on_def)
  also have "\<dots> = (\<Sum>r \<in> set ?cs. int (count_list ?cs r))"
    by (rule sum.cong) (simp_all add: buildCharacterFrequencyMap_singleton)
  also have "\<dots> = int (\<Sum>r \<in> set ?cs. count_list ?cs r)"
    by simp
  also have "\<dots> = int (length ?cs)"
    by (simp add: sum_count_set)
  finally show ?thesis .
qed

text \<open>
  C4. For every string \<open>s\<close>, \<open>uniqueCharacters\<close> and \<open>characterFrequency\<close> are computed
  over the case-folded string with exactly space, horizontal tab and newline excluded:
  \<open>uniqueCharacters\<close> is the number of distinct remaining code points, the keys of
  \<open>characterFrequency\<close> are the remaining code points as one-character strings, each
  mapped to its number of occurrences. Every other code point of the case-folded string
  is a key; the carriage return is counted.
\<close>

theorem unique_and_frequency_over_counted_runes:
  "UniqueCharacters (analyzeString tbl s) = int (card (set (counted_runes tbl s)))
   \<and> dom (CharacterFrequencyMap (analyzeString tbl s)) = (\<lambda>r. [r]) ` set (counted_runes tbl s)
   \<and> (\<forall>r \<in> set (counted_runes tbl s).
         CharacterFrequencyMap (analyzeString tbl s) [r]
           = Some (int (count_list (counted_runes tbl s) r)))
   \<and> (\<forall>r \<in> set (strings_ToLower tbl s).
         r \<noteq> 0x20 \<and> r \<noteq> 0x09 \<and> r \<noteq> 0x0A \<longrightarrow>
         [r] \<in> dom (CharacterFrequencyMap (analyzeString tbl s)))
   \<and> UniqueCharacters (analyzeString tbl [0x0D]) = 1
   \<and> CharacterFrequencyMap (analyzeString tbl [0x0D]) [0x0D] = Some 1"
proof (intro conjI)
  show "UniqueCharacters (analyzeString tbl s) = int (card (set (counted_runes tbl s)))"
    by (simp add: analyzeString_def countUniqueCharacters_counted)
  show "dom (CharacterFrequencyMap (analyzeString tbl s))
      = (\<lambda>r. [r]) ` set (counted_runes tbl s)"
    by (simp add: analyzeString_def dom_buildCharacterFrequencyMap)
  show "\<forall>r \<in> set (counted_runes tbl s).
         CharacterFrequencyMap (analyzeString tbl s) [r]
           = Some (int (count_list (counted_runes tbl s) r))"
    by (simp add: analyzeString_def buildCharacterFrequencyMap_singleton)
  show "\<forall>r \<in> set (strings_ToLower tbl s).
         r \<noteq> 0x20 \<and> r \<noteq> 0x09 \<and> r \<noteq> 0x0A \<longrightarrow>
         [r] \<in> dom (CharacterFrequencyMap (analyzeString tbl s))"
    by (auto simp: analyzeString_def dom_buildCharacterFrequencyMap counted_runes_def)
  show "UniqueCharacters (analyzeString tbl [0x0D]) = 1"
    by (simp add: analyzeString_def countUniqueCharacters_counted counted_runes_def
        strings_ToLower_def unicode_ToLower_def)
  show "CharacterFrequencyMap (analyzeString tbl [0x0D]) [0x0D] = Some 1"
    by (simp add: analyzeString_def buildCharacterFrequencyMap_singleton counted_runes_def
        strings_ToLower_def unicode_ToLower_def)
qed

text \<open>On \<open>"A a"\<close>: one distinct code point, \<open>a\<close> twice, and no key for the space.\<close>

theorem unique_and_frequency_witness:
  "counted_runes (\<lambda>r. r) (runes ''A a'') = runes ''aa''
   \<and> UniqueCharacters (analyzeString (\<lambda>r. r) (runes ''A a'')) = 1
   \<and> CharacterFrequencyMap (analyzeString (\<lambda>r. r) (runes ''A a'')) (runes ''a'') = Some 2
   \<and> CharacterFrequencyMap (analyzeString (\<lambda>r. r) (runes ''A a'')) (runes '' '') = None"
proof -
  have cr: "counted_runes (\<lambda>r. r) (runes ''A a'') = runes ''aa''"
    by (simp add: counted_runes_def strings_ToLower_def unicode_ToLower_def runes_def)
  note inst = unique_and_frequency_over_counted_runes [of "\<lambda>r. r" "runes ''A a''"]
  have u: "UniqueCharacters (analyzeString (\<lambda>r. r) (runes ''A a'')) = 1"
    using inst unfolding cr by (simp add: runes_def)
  have a: "CharacterFrequencyMap (analyzeString (\<lambda>r. r) (runes ''A a'')) (runes ''a'') = Some 2"
    using inst unfolding cr by (simp add: runes_def)
  have "runes '' '' \<notin> dom (CharacterFrequencyMap (analyzeString (\<lambda>r. r) (runes ''A a'')))"
    using inst unfolding cr by (simp add: runes_def)
  then have sp: "CharacterFrequencyMap (analyzeString (\<lambda>r. r) (runes ''A a'')) (runes '' '') = None"
    by (simp add: dom_def)
  from cr u a sp show ?thesis by blast
qed

text \<open>
  C10. For every string \<open>s\<close>, \<open>uniqueCharacters\<close> is the number of keys of
  \<open>characterFrequency\<close>, and the values of \<open>characterFrequency\<close> add up to the number of
  code points of the case-folded \<open>s\<close> that are not space, horizontal tab or newline.
\<close>

theorem unique_count_agrees_with_frequency_map:
  "UniqueCharacters (analyzeString tbl s)
     = int (card (dom (CharacterFrequencyMap (analyzeString tbl s))))
   \<and> values_sum (CharacterFrequencyMap (analyzeString tbl s))
     = int (length (filter (\<lambda>r. r \<noteq> 0x20 \<and> r \<noteq> 0x09 \<and> r \<noteq> 0x0A) (strings_ToLower tbl s)))"
proof
  show "UniqueCharacters (analyzeString tbl s)
     = int (card (dom (CharacterFrequencyMap (analyzeString tbl s))))"
    by (simp add: analyzeString_def countUniqueCharacters_counted
        card_dom_buildCharacterFrequencyMap)
  have "counted_runes tbl s
      = filter (\<lambda>r. r \<noteq> 0x20 \<and> r \<noteq> 0x09 \<and> r \<noteq> 0x0A) (strings_ToLower tbl s)"
    by (simp add: counted_runes_def)
  then show "values_sum (CharacterFrequencyMap (analyzeString tbl s))
     = int (length (filter (\<lambda>r. r \<noteq> 0x20 \<and> r \<noteq> 0x09 \<and> r \<noteq> 0x0A) (strings_ToLower tbl s)))"
    by (simp add: analyzeString_def values_sum_buildCharacterFrequencyMap)
qed

text \<open>The example of the specification.\<close>

lemma frequency_example:
  "buildCharacterFrequencyMap tbl (runes ''a a'') = [runes ''a'' \<mapsto> 2]"
  by (simp add: buildCharacterFrequencyMap_def strings_ToLower_def unicode_ToLower_def
      runes_def freqMap_step_def)

subsection \<open>The filter engine\<close>

text \<open>
  C6. For every record and every filter set, \<open>matchesFilters\<close> is true if and only if
  every present predicate holds of the record: equal palindrome flag, length at least
  \<open>minLength\<close>, length at most \<open>maxLength\<close>, equal word count, and the case-folded
  \<open>containsCharacter\<close> a key of the frequency map. The empty filter set matches every
  record. The function reads nothing that could fail.
\<close>

theorem matchesFilters_conjunction:
  "matchesFilters tbl analyzed params =
     ((\<forall>b. fpIsPalindrome params = Some b \<longrightarrow> IsPalindrome (Properties analyzed) = b)
      \<and> (\<forall>n. fpMinLength params = Some n \<longrightarrow> Length (Properties analyzed) \<ge> n)
      \<and> (\<forall>n. fpMaxLength params = Some n \<longrightarrow> Length (Properties analyzed) \<le> n)
      \<and> (\<forall>n. fpWordCount params = Some n \<longrightarrow> WordCount (Properties analyzed) = n)
      \<and> (\<forall>c. fpContainsCharacter params = Some c \<longrightarrow>
             strings_ToLower tbl c \<in> dom (CharacterFrequencyMap (Properties analyzed))))
   \<and> matchesFilters tbl analyzed no_filters"
proof
  show "matchesFilters tbl analyzed params =
     ((\<forall>b. fpIsPalindrome params = Some b \<longrightarrow> IsPalindrome (Properties analyzed) = b)
      \<and> (\<forall>n. fpMinLength params = Some n \<longrightarrow> Length (Properties analyzed) \<ge> n)
      \<and> (\<forall>n. fpMaxLength params = Some n \<longrightarrow> Length (Properties analyzed) \<le> n)
      \<and> (\<forall>n. fpWordCount params = Some n \<longrightarrow> WordCount (Properties analyzed) = n)
      \<and> (\<forall>c. fpContainsCharacter params = Some c \<longrightarrow>
             strings_ToLower tbl c \<in> dom (CharacterFrequencyMap (Properties analyzed))))"
    by (cases "fpIsPalindrome params"; cases "fpMinLength params"; cases "fpMaxLength params";
        cases "fpWordCount params"; cases "fpContainsCharacter params")
       (auto simp: matchesFilters_def Let_def dom_def)
  show "matchesFilters tbl analyzed no_filters"
    by (simp add: matchesFilters_def no_filters_def)
qed

lemma radar_properties:
  "IsPalindrome (Properties radar)"
  "Length (Properties radar) = 5"
  "WordCount (Properties radar) = 1"
  "runes ''r'' \<in> dom (CharacterFrequencyMap (Properties radar))"
proof -
  show "IsPalindrome (Properties radar)"
    by (simp add: radar_def analyzeString_def checkPalindrome_def Let_def palindrome_loop_rev
        ReplaceAllString_spaces_filter strings_ToLower_def runes_def re_space_def
        unicode_ToLower_def)
  show "Length (Properties radar) = 5"
    by (simp add: radar_def analyzeString_def runes_def)
  show "WordCount (Properties radar) = 1"
    by (simp add: radar_def analyzeString_def countWords_def strings_Fields_def runes_def
        unicode_IsSpace_def)
  show "runes ''r'' \<in> dom (CharacterFrequencyMap (Properties radar))"
    by (simp add: radar_def analyzeString_def dom_buildCharacterFrequencyMap counted_runes_def
        strings_ToLower_def unicode_ToLower_def runes_def)
qed

text \<open>
  \<open>"radar"\<close> passes five present predicates, and fails once \<open>maxLength\<close> is 4.
\<close>

theorem matchesFilters_witness:
  "fpIsPalindrome radar_filters = Some True \<and> fpMinLength radar_filters = Some 5
   \<and> fpMaxLength radar_filters = Some 5 \<and> fpWordCount radar_filters = Some 1
   \<and> fpContainsCharacter radar_filters = Some (runes ''R'')
   \<and> matchesFilters (\<lambda>r. r) radar radar_filters
   \<and> \<not> matchesFilters (\<lambda>r. r) radar (radar_filters \<lparr> fpMaxLength := Some 4 \<rparr>)"
proof -
  have low: "strings_ToLower (\<lambda>r. r) (runes ''R'') = runes ''r''"
    by (simp add: strings_ToLower_def unicode_ToLower_def runes_def)
  have yes: "matchesFilters (\<lambda>r. r) radar radar_filters"
    using matchesFilters_conjunction [of "\<lambda>r. r" radar radar_filters] radar_properties
    by (simp add: radar_filters_def low)
  have no: "\<not> matchesFilters (\<lambda>r. r) radar (radar_filters \<lparr> fpMaxLength := Some 4 \<rparr>)"
    using matchesFilters_conjunction
      [of "\<lambda>r. r" radar "radar_filters \<lparr> fpMaxLength := Some 4 \<rparr>"] radar_properties
    by (simp add: radar_filters_def)
  from yes no show ?thesis by (simp add: radar_filters_def)
qed

subsection \<open>Insertion and the store\<close>

lemma utf8_EncodeRune_not_Nil: "utf8_EncodeRune r \<noteq> []"
  by (simp add: utf8_EncodeRune_def)

lemma bytes_of_Nil_iff: "bytes_of v = [] \<longleftrightarrow> v = []"
  by (cases v) (simp_all add: bytes_of_def utf8_EncodeRune_not_Nil)

lemma createString_bound:
  "ShouldBindJSON body = Some v \<Longrightarrow>
   createString tbl stringStore now body =
     (if stringStore (calculateSHA256 v) \<noteq> None then (StatusConflict, stringStore)
      else (StatusCreated \<lparr> ID = calculateSHA256 v, Value = v,
                             Properties = analyzeString tbl v, CreatedAt = now \<rparr>,
            stringStore(calculateSHA256 v \<mapsto>
              \<lparr> ID = calculateSHA256 v, Value = v,
                Properties = analyzeString tbl v, CreatedAt = now \<rparr>)))"
  by (auto simp: createString_def Let_def bytes_of_Nil_iff analyzeString_def)

lemma createString_unbound:
  "ShouldBindJSON body = None \<Longrightarrow>
   createString tbl stringStore now body = (StatusBadRequest, stringStore)"
  by (simp add: createString_def)

text \<open>
  C5. For a request that binds to the value \<open>v\<close>: when the hash of \<open>v\<close> is a key of the
  store, \<open>createString\<close> answers 409 Conflict and returns the store as it was; and
  posting the same value a second time, at any time, answers 409 Conflict and leaves
  the store of the first call.
\<close>

theorem createString_duplicate:
  assumes "ShouldBindJSON body = Some v"
  shows "(stringStore (calculateSHA256 v) \<noteq> None \<longrightarrow>
            createString tbl stringStore now body = (StatusConflict, stringStore))
       \<and> createString tbl (snd (createString tbl stringStore now body)) now' body
           = (StatusConflict, snd (createString tbl stringStore now body))"
  using assms by (simp add: createString_bound)

text \<open>\<open>"abc"\<close> posted twice to the empty store: created, then conflict.\<close>

theorem createString_duplicate_witness:
  "ShouldBindJSON (Some (runes ''abc'')) = Some (runes ''abc'')
   \<and> createString (\<lambda>r. r) Map.empty 0 (Some (runes ''abc''))
       = (StatusCreated \<lparr> ID = calculateSHA256 (runes ''abc''), Value = runes ''abc'',
                           Properties = analyzeString (\<lambda>r. r) (runes ''abc''), CreatedAt = 0 \<rparr>,
          [calculateSHA256 (runes ''abc'') \<mapsto>
             \<lparr> ID = calculateSHA256 (runes ''abc''), Value = runes ''abc'',
               Properties = analyzeString (\<lambda>r. r) (runes ''abc''), CreatedAt = 0 \<rparr>])
   \<and> createString (\<lambda>r. r)
         (snd (createString (\<lambda>r. r) Map.empty 0 (Some (runes ''abc'')))) 7 (Some (runes ''abc''))
       = (StatusConflict, snd (createString (\<lambda>r. r) Map.empty 0 (Some (runes ''abc''))))"
proof -
  have b: "ShouldBindJSON (Some (runes ''abc'')) = Some (runes ''abc'')"
    by (simp add: ShouldBindJSON_def runes_def)
  have first: "createString (\<lambda>r. r) Map.empty 0 (Some (runes ''abc''))
       = (StatusCreated \<lparr> ID = calculateSHA256 (runes ''abc''), Value = runes ''abc'',
                           Properties = analyzeString (\<lambda>r. r) (runes ''abc''), CreatedAt = 0 \<rparr>,
          [calculateSHA256 (runes ''abc'') \<mapsto>
             \<lparr> ID = calculateSHA256 (runes ''abc''), Value = runes ''abc'',
               Properties = analyzeString (\<lambda>r. r) (runes ''abc''), CreatedAt = 0 \<rparr>])"
    by (simp add: createString_bound [OF b])
  from b first createString_duplicate [OF b, of Map.empty "\<lambda>r. r" 0 7]
  show ?thesis by blast
qed

text \<open>Only the answer 201 Created changes the store.\<close>

lemma createString_no_mutation_unless_created:
  "(\<forall>a. fst (createString tbl stringStore now body) \<noteq> StatusCreated a) \<Longrightarrow>
   snd (createString tbl stringStore now body) = stringStore"
  by (cases "ShouldBindJSON body")
     (auto simp: createString_bound createString_unbound split: if_splits)

subsection \<open>Identifiers\<close>

lemma store_invariant_empty: "store_invariant tbl Map.empty"
  by (simp add: store_invariant_def)

lemma store_invariantD:
  "store_invariant tbl stringStore \<Longrightarrow> stringStore k = Some a \<Longrightarrow>
   k = ID a \<and> ID a = calculateSHA256 (Value a) \<and> SHA256Hash (Properties a) = ID a
   \<and> Properties a = analyzeString tbl (Value a)"
  unfolding store_invariant_def by blast

lemma SHA256Hash_analyzeString: "SHA256Hash (analyzeString tbl v) = calculateSHA256 v"
  by (simp add: analyzeString_def)

lemma store_invariant_createString:
  assumes inv: "store_invariant tbl stringStore"
  shows "store_invariant tbl (snd (createString tbl stringStore now body))"
proof (cases "ShouldBindJSON body")
  case None
  with inv show ?thesis by (simp add: createString_unbound)
next
  case (Some v)
  let ?h = "calculateSHA256 v"
  let ?rec = "\<lparr> ID = ?h, Value = v, Properties = analyzeString tbl v, CreatedAt = now \<rparr>"
  show ?thesis
  proof (cases "stringStore ?h \<noteq> None")
    case True
    with Some inv show ?thesis by (simp add: createString_bound)
  next
    case False
    then have st: "snd (createString tbl stringStore now body) = stringStore(?h \<mapsto> ?rec)"
      using Some by (simp add: createString_bound)
    show ?thesis
      unfolding st store_invariant_def
    proof (intro allI impI)
      fix k a
      assume ka: "(stringStore(?h \<mapsto> ?rec)) k = Some a"
      show "k = ID a \<and> ID a = calculateSHA256 (Value a) \<and> SHA256Hash (Properties a) = ID a
        \<and> Properties a = analyzeString tbl (Value a)"
      proof (cases "k = ?h")
        case True
        with ka have "a = ?rec" by simp
        with True show ?thesis by (simp add: SHA256Hash_analyzeString)
      next
        case False
        with ka have "stringStore k = Some a" by simp
        with inv show ?thesis by (rule store_invariantD)
      qed
    qed
  qed
qed

lemma store_invariant_deleteString:
  assumes inv: "store_invariant tbl stringStore"
  shows "store_invariant tbl (snd (deleteString stringStore v))"
  unfolding store_invariant_def
proof (intro allI impI)
  fix k a
  assume "snd (deleteString stringStore v) k = Some a"
  then have "stringStore k = Some a"
    by (auto simp: deleteString_def Let_def split: if_splits)
  with inv show "k = ID a \<and> ID a = calculateSHA256 (Value a) \<and> SHA256Hash (Properties a) = ID a
        \<and> Properties a = analyzeString tbl (Value a)"
    by (rule store_invariantD)
qed

lemma store_invariant_serve:
  "store_invariant tbl stringStore \<Longrightarrow> store_invariant tbl (serve tbl stringStore req)"
  by (cases req) (simp_all add: store_invariant_createString store_invariant_deleteString)

lemma store_invariant_foldl:
  "store_invariant tbl stringStore \<Longrightarrow> store_invariant tbl (foldl (serve tbl) stringStore reqs)"
  by (induction reqs arbitrary: stringStore) (simp_all add: store_invariant_serve)

lemma store_invariant_store_after: "store_invariant tbl (store_after tbl reqs)"
  by (simp add: store_after_def store_invariant_foldl store_invariant_empty)

lemma length_hex_digits: "length (hex_digits n v) = n"
  by (induction n arbitrary: v) simp_all

lemma hex_digit_lowercase:
  "0 \<le> d \<Longrightarrow> d < 16 \<Longrightarrow>
   (0x30 \<le> hex_digit d \<and> hex_digit d \<le> 0x39) \<or> (0x61 \<le> hex_digit d \<and> hex_digit d \<le> 0x66)"
  by (auto simp: hex_digit_def)

lemma hex_digits_lowercase:
  "c \<in> set (hex_digits n v) \<Longrightarrow> (0x30 \<le> c \<and> c \<le> 0x39) \<or> (0x61 \<le> c \<and> c \<le> 0x66)"
proof (induction n arbitrary: v)
  case 0
  then show ?case by simp
next
  case (Suc n)
  from Suc.prems have "c \<in> set (hex_digits n (v div 16)) \<or> c = hex_digit (v mod 16)"
    by auto
  then show ?case
  proof
    assume "c \<in> set (hex_digits n (v div 16))"
    then show ?thesis by (rule Suc.IH)
  next
    assume c: "c = hex_digit (v mod 16)"
    have "0 \<le> v mod 16" "v mod 16 < 16" by simp_all
    then show ?thesis unfolding c by (rule hex_digit_lowercase)
  qed
qed

text \<open>
  C9. In the store reached by any sequence of requests, every record is stored under
  its \<open>id\<close>, its \<open>id\<close> is the hash of its value, its \<open>contentHash\<close> property is its
  \<open>id\<close>, and its properties are those that analysing its value gives. The hash is the
  SHA-256 digest of the UTF-8 bytes of the value, printed as 64 lowercase hexadecimal
  digits.
\<close>

theorem stored_id_is_hash_of_value:
  "(\<forall>k a. store_after tbl reqs k = Some a \<longrightarrow>
        k = ID a \<and> ID a = calculateSHA256 (Value a) \<and> SHA256Hash (Properties a) = ID a
        \<and> Properties a = analyzeString tbl (Value a))
   \<and> calculateSHA256 v = Sprintf_x (sha256_Sum256 (bytes_of v))
   \<and> length (calculateSHA256 v) = 64
   \<and> (\<forall>c \<in> set (calculateSHA256 v). (0x30 \<le> c \<and> c \<le> 0x39) \<or> (0x61 \<le> c \<and> c \<le> 0x66))"
proof (intro conjI)
  show "\<forall>k a. store_after tbl reqs k = Some a \<longrightarrow>
        k = ID a \<and> ID a = calculateSHA256 (Value a) \<and> SHA256Hash (Properties a) = ID a
        \<and> Properties a = analyzeString tbl (Value a)"
    using store_invariantD [OF store_invariant_store_after [of tbl reqs]] by blast
  show "calculateSHA256 v = Sprintf_x (sha256_Sum256 (bytes_of v))"
    by (simp add: calculateSHA256_def)
  show "length (calculateSHA256 v) = 64"
    by (simp add: calculateSHA256_def Sprintf_x_def length_hex_digits)
  show "\<forall>c \<in> set (calculateSHA256 v). (0x30 \<le> c \<and> c \<le> 0x39) \<or> (0x61 \<le> c \<and> c \<le> 0x66)"
    unfolding calculateSHA256_def Sprintf_x_def using hex_digits_lowercase by blast
qed

text \<open>The two test vectors of FIPS 180-4: one block, and two blocks.\<close>

lemma calculateSHA256_abc:
  "calculateSHA256 (runes ''abc'')
     = runes ''ba7816bf8f01cfea414140de5dae2223b00361a396177a9cb410ff61f20015ad''"
  by code_simp

lemma sha256_two_blocks:
  "calculateSHA256 (runes ''abcdbcdecdefdefgefghfghighijhijkijkljklmklmnlmnomnopnopq'')
     = runes ''248d6a61d20638b8e5c026930c3e6039a33ce45964ff2167f6ecedd419db06c1''"
  by code_simp

text \<open>After posting, deleting and posting \<open>"abc"\<close> again, its record is under its hash.\<close>

theorem stored_id_is_hash_of_value_witness:
  "store_after (\<lambda>r. r) post_delete_post
      (runes ''ba7816bf8f01cfea414140de5dae2223b00361a396177a9cb410ff61f20015ad'')
     = Some \<lparr> ID = runes ''ba7816bf8f01cfea414140de5dae2223b00361a396177a9cb410ff61f20015ad'',
              Value = runes ''abc'',
              Properties = analyzeString (\<lambda>r. r) (runes ''abc''), CreatedAt = 5 \<rparr>
   \<and> calculateSHA256 (runes ''abc'')
     = runes ''ba7816bf8f01cfea414140de5dae2223b00361a396177a9cb410ff61f20015ad''
   \<and> SHA256Hash (analyzeString (\<lambda>r. r) (runes ''abc''))
     = runes ''ba7816bf8f01cfea414140de5dae2223b00361a396177a9cb410ff61f20015ad''"
proof -
  let ?h = "runes ''ba7816bf8f01cfea414140de5dae2223b00361a396177a9cb410ff61f20015ad''"
  let ?a = "\<lparr> ID = ?h, Value = runes ''abc'',
              Properties = analyzeString (\<lambda>r. r) (runes ''abc''), CreatedAt = 5 \<rparr>"
  have b: "ShouldBindJSON (Some (runes ''abc'')) = Some (runes ''abc'')"
    by (simp add: ShouldBindJSON_def runes_def)
  have st: "store_after (\<lambda>r. r) post_delete_post ?h = Some ?a"
    by (simp add: store_after_def post_delete_post_def createString_bound [OF b]
        deleteString_def calculateSHA256_abc)
  from stored_id_is_hash_of_value [of "\<lambda>r. r" post_delete_post "runes ''abc''"] st
  have "?h = ID ?a \<and> ID ?a = calculateSHA256 (Value ?a) \<and> SHA256Hash (Properties ?a) = ID ?a"
    by blast
  with st show ?thesis by simp
qed

subsection \<open>The query translator: the matchers\<close>

lemma HasPrefix_iff: "HasPrefix s p \<longleftrightarrow> (\<exists>post. s = p @ post)"
  by (induction s p rule: HasPrefix.induct) auto

lemma strings_Contains_iff: "strings_Contains s sub \<longleftrightarrow> (\<exists>pre post. s = pre @ sub @ post)"
proof (induction s)
  case Nil
  show ?case by auto
next
  case (Cons c cs)
  show ?case
  proof
    assume "strings_Contains (c # cs) sub"
    then consider "HasPrefix (c # cs) sub" | "strings_Contains cs sub" by auto
    then show "\<exists>pre post. c # cs = pre @ sub @ post"
    proof cases
      case 1
      then obtain post where "c # cs = sub @ post" by (auto simp: HasPrefix_iff)
      then have "c # cs = [] @ sub @ post" by simp
      then show ?thesis by blast
    next
      case 2
      then obtain pre post where "cs = pre @ sub @ post" using Cons.IH by blast
      then have "c # cs = (c # pre) @ sub @ post" by simp
      then show ?thesis by blast
    qed
  next
    assume "\<exists>pre post. c # cs = pre @ sub @ post"
    then obtain pre post where eq: "c # cs = pre @ sub @ post" by blast
    show "strings_Contains (c # cs) sub"
    proof (cases pre)
      case Nil
      with eq have "HasPrefix (c # cs) sub" by (auto simp: HasPrefix_iff)
      then show ?thesis by simp
    next
      case (Cons p ps)
      with eq have "cs = ps @ sub @ post" by simp
      then have "strings_Contains cs sub" using Cons.IH by blast
      then show ?thesis by simp
    qed
  qed
qed

lemma strip_lit_iff: "strip_lit lit s = Some t \<longleftrightarrow> s = lit @ t"
  by (induction lit s rule: strip_lit.induct) auto

lemma strip_lit_append: "strip_lit lit (lit @ t) = Some t"
  by (simp add: strip_lit_iff)

lemma lit_digits_at_None_iff:
  "lit_digits_at lit s = None \<longleftrightarrow> \<not> (\<exists>d rest. re_digit d \<and> s = lit @ d # rest)"
proof (cases "strip_lit lit s")
  case None
  then have "\<And>t. s \<noteq> lit @ t" using strip_lit_iff [of lit s] by auto
  with None show ?thesis by (auto simp: lit_digits_at_def)
next
  case (Some t)
  then have s: "s = lit @ t" by (simp add: strip_lit_iff)
  have "takeWhile re_digit t = [] \<longleftrightarrow> \<not> (\<exists>d rest. re_digit d \<and> t = d # rest)"
    by (cases t) auto
  with Some show ?thesis by (auto simp: lit_digits_at_def Let_def s)
qed

lemma lit_digits_at_match:
  assumes "ds \<noteq> []" "\<forall>d \<in> set ds. re_digit d" "post = [] \<or> \<not> re_digit (hd post)"
  shows "lit_digits_at lit (lit @ ds @ post) = Some ds"
proof -
  have "takeWhile re_digit (ds @ post) = ds"
    using assms by (cases post) (auto simp: takeWhile_append2)
  with assms(1) show ?thesis
    by (simp add: lit_digits_at_def strip_lit_append)
qed

lemma find_leftmost_here: "m s = Some x \<Longrightarrow> find_leftmost m s = Some x"
  by (cases s) simp_all

lemma find_leftmost_skip:
  "(\<forall>i < length pre. m (drop i (pre @ suf)) = None) \<Longrightarrow>
   find_leftmost m (pre @ suf) = find_leftmost m suf"
proof (induction pre)
  case Nil
  show ?case by simp
next
  case (Cons c cs)
  have here: "m (c # cs @ suf) = None"
    using Cons.prems [rule_format, of 0] by simp
  have "\<forall>i < length cs. m (drop i (cs @ suf)) = None"
  proof (intro allI impI)
    fix i assume "i < length cs"
    then show "m (drop i (cs @ suf)) = None"
      using Cons.prems [rule_format, of "Suc i"] by simp
  qed
  then have "find_leftmost m (cs @ suf) = find_leftmost m suf" by (rule Cons.IH)
  with here show ?case by simp
qed

lemma find_leftmost_None_iff:
  "find_leftmost m s = None \<longleftrightarrow> (\<forall>i \<le> length s. m (drop i s) = None)"
proof (induction s)
  case Nil
  show ?case by simp
next
  case (Cons c cs)
  have "(\<forall>i \<le> length (c # cs). m (drop i (c # cs)) = None)
      \<longleftrightarrow> m (c # cs) = None \<and> (\<forall>i \<le> length cs. m (drop i cs) = None)"
  proof
    assume h: "\<forall>i \<le> length (c # cs). m (drop i (c # cs)) = None"
    have "m (c # cs) = None" using h [rule_format, of 0] by simp
    moreover have "\<forall>i \<le> length cs. m (drop i cs) = None"
    proof (intro allI impI)
      fix i assume "i \<le> length cs"
      then show "m (drop i cs) = None" using h [rule_format, of "Suc i"] by simp
    qed
    ultimately show "m (c # cs) = None \<and> (\<forall>i \<le> length cs. m (drop i cs) = None)" by blast
  next
    assume h: "m (c # cs) = None \<and> (\<forall>i \<le> length cs. m (drop i cs) = None)"
    show "\<forall>i \<le> length (c # cs). m (drop i (c # cs)) = None"
    proof (intro allI impI)
      fix i assume i: "i \<le> length (c # cs)"
      show "m (drop i (c # cs)) = None"
      proof (cases i)
        case 0
        with h show ?thesis by simp
      next
        case (Suc j)
        with i h show ?thesis by simp
      qed
    qed
  qed
  with Cons.IH show ?case by (auto split: option.splits)
qed

lemma find_lit_digits_first:
  assumes "first_number_after lit lowerQuery ds"
  shows "find_leftmost (lit_digits_at lit) lowerQuery = Some ds"
proof -
  from assms obtain pre post where
    eq: "lowerQuery = pre @ lit @ ds @ post"
    and ds: "ds \<noteq> []" "\<forall>d \<in> set ds. re_digit d"
    and post: "post = [] \<or> \<not> re_digit (hd post)"
    and first: "\<forall>i < length pre. \<forall>d rest. drop i lowerQuery = lit @ d # rest \<longrightarrow> \<not> re_digit d"
    unfolding first_number_after_def by blast
  have "\<forall>i < length pre. lit_digits_at lit (drop i (pre @ lit @ ds @ post)) = None"
    using first unfolding eq lit_digits_at_None_iff by blast
  then have "find_leftmost (lit_digits_at lit) (pre @ lit @ ds @ post)
      = find_leftmost (lit_digits_at lit) (lit @ ds @ post)"
    by (rule find_leftmost_skip)
  also have "\<dots> = Some ds"
    by (rule find_leftmost_here) (rule lit_digits_at_match [OF ds post])
  finally show ?thesis unfolding eq .
qed

text \<open>
  The two expressions with a number match exactly as \<open>first_number_after\<close> says, and
  fail exactly when the literal is nowhere followed by a digit.
\<close>

lemma find_leftmost_SomeD:
  "find_leftmost m s = Some x \<Longrightarrow>
   \<exists>pre suf. s = pre @ suf \<and> m suf = Some x \<and> (\<forall>i < length pre. m (drop i s) = None)"
proof (induction s)
  case Nil
  then have "m [] = Some x" by simp
  then show ?case
    by (intro exI [of _ "[]"]) simp
next
  case (Cons c cs)
  show ?case
  proof (cases "m (c # cs)")
    case (Some y)
    with Cons.prems have "m (c # cs) = Some x" by simp
    then show ?thesis
      by (intro exI [of _ "[]"] exI [of _ "c # cs"]) simp
  next
    case None
    with Cons.prems have "find_leftmost m cs = Some x" by simp
    from Cons.IH [OF this] obtain pre suf where cs: "cs = pre @ suf" and suf: "m suf = Some x"
      and first: "\<forall>i < length pre. m (drop i cs) = None"
      by (elim exE conjE)
    have "\<forall>i < length (c # pre). m (drop i (c # cs)) = None"
    proof (intro allI impI)
      fix i assume i: "i < length (c # pre)"
      show "m (drop i (c # cs)) = None"
      proof (cases i)
        case 0
        with None show ?thesis by simp
      next
        case (Suc j)
        with i first show ?thesis by simp
      qed
    qed
    moreover have "c # cs = (c # pre) @ suf" using cs by simp
    ultimately show ?thesis using suf
      by (intro exI [of _ "c # pre"] exI [of _ suf]) simp
  qed
qed

lemma lit_digits_at_SomeD:
  assumes "lit_digits_at lit s = Some ds"
  shows "\<exists>post. s = lit @ ds @ post \<and> ds \<noteq> [] \<and> (\<forall>d \<in> set ds. re_digit d)
            \<and> (post = [] \<or> \<not> re_digit (hd post))"
proof -
  from assms obtain t where t: "strip_lit lit s = Some t"
    by (auto simp: lit_digits_at_def split: option.splits)
  then have s: "s = lit @ t" by (simp add: strip_lit_iff)
  from assms t have ds: "ds = takeWhile re_digit t" and ne: "ds \<noteq> []"
    by (auto simp: lit_digits_at_def Let_def split: if_splits)
  have all: "\<forall>d \<in> set ds. re_digit d"
    unfolding ds by (auto dest: set_takeWhileD)
  have stop: "dropWhile re_digit t = [] \<or> \<not> re_digit (hd (dropWhile re_digit t))"
    using hd_dropWhile [of re_digit t] by blast
  have "lit @ t = lit @ ds @ dropWhile re_digit t" unfolding ds by simp
  then have "s = lit @ ds @ dropWhile re_digit t" unfolding s .
  with ne all stop show ?thesis
    by (intro exI [of _ "dropWhile re_digit t"]) simp
qed

lemma find_lit_digits_first_iff:
  "find_leftmost (lit_digits_at lit) lowerQuery = Some ds
     \<longleftrightarrow> first_number_after lit lowerQuery ds"
proof
  assume "first_number_after lit lowerQuery ds"
  then show "find_leftmost (lit_digits_at lit) lowerQuery = Some ds"
    by (rule find_lit_digits_first)
next
  assume "find_leftmost (lit_digits_at lit) lowerQuery = Some ds"
  from find_leftmost_SomeD [OF this] obtain pre suf where eq: "lowerQuery = pre @ suf"
    and suf: "lit_digits_at lit suf = Some ds"
    and first: "\<forall>i < length pre. lit_digits_at lit (drop i lowerQuery) = None"
    by (elim exE conjE)
  from lit_digits_at_SomeD [OF suf] obtain post where post: "suf = lit @ ds @ post"
    and ne: "ds \<noteq> []" and digits: "\<forall>d \<in> set ds. re_digit d"
    and stop: "post = [] \<or> \<not> re_digit (hd post)"
    by (elim exE conjE)
  have earlier: "\<forall>i < length pre. \<forall>d rest.
      drop i lowerQuery = lit @ d # rest \<longrightarrow> \<not> re_digit d"
  proof (intro allI impI)
    fix i d rest
    assume i: "i < length pre" and dr: "drop i lowerQuery = lit @ d # rest"
    from first i have "lit_digits_at lit (drop i lowerQuery) = None" by simp
    then have "\<not> (\<exists>d rest. re_digit d \<and> drop i lowerQuery = lit @ d # rest)"
      unfolding lit_digits_at_None_iff .
    with dr show "\<not> re_digit d" by simp
  qed
  have whole: "lowerQuery = pre @ lit @ ds @ post" using eq post by simp
  show "first_number_after lit lowerQuery ds"
    unfolding first_number_after_def
    using whole ne digits stop earlier
    by (intro exI [of _ pre] exI [of _ post]) simp
qed

lemma lengthPattern_iff:
  "lengthPattern lowerQuery = Some ds
     \<longleftrightarrow> first_number_after (runes ''longer than '') lowerQuery ds"
  unfolding lengthPattern_def by (rule find_lit_digits_first_iff)

lemma shorterPattern_iff:
  "shorterPattern lowerQuery = Some ds
     \<longleftrightarrow> first_number_after (runes ''shorter than '') lowerQuery ds"
  unfolding shorterPattern_def by (rule find_lit_digits_first_iff)

lemma find_lit_digits_None_iff:
  "find_leftmost (lit_digits_at lit) s = None
     \<longleftrightarrow> \<not> (\<exists>pre d rest. re_digit d \<and> s = pre @ lit @ d # rest)"
proof
  assume none: "find_leftmost (lit_digits_at lit) s = None"
  show "\<not> (\<exists>pre d rest. re_digit d \<and> s = pre @ lit @ d # rest)"
  proof
    assume "\<exists>pre d rest. re_digit d \<and> s = pre @ lit @ d # rest"
    then obtain pre d rest where d: "re_digit d" and s: "s = pre @ lit @ d # rest" by blast
    have "length pre \<le> length s" unfolding s by simp
    then have "lit_digits_at lit (drop (length pre) s) = None"
      using none unfolding find_leftmost_None_iff by blast
    moreover have "drop (length pre) s = lit @ d # rest" unfolding s by simp
    ultimately show False using d unfolding lit_digits_at_None_iff by blast
  qed
next
  assume no: "\<not> (\<exists>pre d rest. re_digit d \<and> s = pre @ lit @ d # rest)"
  have "lit_digits_at lit (drop i s) = None" for i
    unfolding lit_digits_at_None_iff
  proof
    assume "\<exists>d rest. re_digit d \<and> drop i s = lit @ d # rest"
    then obtain d rest where d: "re_digit d" and dr: "drop i s = lit @ d # rest" by blast
    have "s = take i s @ drop i s" by simp
    then have "s = take i s @ lit @ d # rest" unfolding dr .
    with d no show False by blast
  qed
  then show "find_leftmost (lit_digits_at lit) s = None"
    unfolding find_leftmost_None_iff by blast
qed

lemma foldl_decimal_nonneg:
  "0 \<le> acc \<Longrightarrow> \<forall>d \<in> set ds. re_digit d \<Longrightarrow>
   0 \<le> foldl (\<lambda>acc d. acc * 10 + (d - 0x30)) acc ds"
proof (induction ds arbitrary: acc)
  case Nil
  then show ?case by simp
next
  case (Cons d ds)
  from Cons.prems have "0 \<le> acc * 10 + (d - 0x30)" by (simp add: re_digit_def)
  with Cons show ?case by simp
qed

lemma decimal_nonneg: "\<forall>d \<in> set ds. re_digit d \<Longrightarrow> 0 \<le> decimal ds"
  unfolding decimal_def by (rule foldl_decimal_nonneg) simp_all

lemma wrap_int_in_range:
  "- 9223372036854775808 \<le> x \<Longrightarrow> x \<le> 9223372036854775807 \<Longrightarrow> wrap_int x = x"
  by (simp add: wrap_int_def)

subsection \<open>The query translator: the value of each key\<close>

lemma word_count_rules_key:
  "word_count_rules lq f ''word_count'' =
     (if strings_Contains lq (runes ''single word'') then Some (IntV 1)
      else if strings_Contains lq (runes ''two word'') \<or> strings_Contains lq (runes ''2 word'')
        then Some (IntV 2)
      else if strings_Contains lq (runes ''three word'') \<or> strings_Contains lq (runes ''3 word'')
        then Some (IntV 3)
      else f ''word_count'')"
  by (simp add: word_count_rules_def)

lemma word_count_rules_other: "k \<noteq> ''word_count'' \<Longrightarrow> word_count_rules lq f k = f k"
  by (simp add: word_count_rules_def)

lemma palindrome_rule_key:
  "palindrome_rule lq f ''is_palindrome'' =
     (if strings_Contains lq (runes ''palindrom'') then Some (BoolV True)
      else f ''is_palindrome'')"
  by (simp add: palindrome_rule_def)

lemma palindrome_rule_other: "k \<noteq> ''is_palindrome'' \<Longrightarrow> palindrome_rule lq f k = f k"
  by (simp add: palindrome_rule_def)

lemma longer_rule_key:
  "longer_rule lq f ''min_length'' =
     (case lengthPattern lq of None \<Rightarrow> f ''min_length''
      | Some m1 \<Rightarrow> Some (IntV (wrap_int (Sscanf_d m1 0 + 1))))"
  by (simp add: longer_rule_def Let_def split: option.splits)

lemma longer_rule_other: "k \<noteq> ''min_length'' \<Longrightarrow> longer_rule lq f k = f k"
  by (simp add: longer_rule_def Let_def split: option.splits)

lemma shorter_rule_key:
  "shorter_rule lq f ''max_length'' =
     (case shorterPattern lq of None \<Rightarrow> f ''max_length''
      | Some m1 \<Rightarrow> Some (IntV (wrap_int (Sscanf_d m1 0 - 1))))"
  by (simp add: shorter_rule_def Let_def split: option.splits)

lemma shorter_rule_other: "k \<noteq> ''max_length'' \<Longrightarrow> shorter_rule lq f k = f k"
  by (simp add: shorter_rule_def Let_def split: option.splits)

lemma char_rule_key:
  "char_rule lq f ''contains_character'' =
     (case charPattern lq of None \<Rightarrow> f ''contains_character'' | Some m1 \<Rightarrow> Some (StrV m1))"
  by (simp add: char_rule_def split: option.splits)

lemma char_rule_other: "k \<noteq> ''contains_character'' \<Longrightarrow> char_rule lq f k = f k"
  by (simp add: char_rule_def split: option.splits)

lemma vowel_rules_key:
  "vowel_rules lq f ''contains_character'' =
     (if strings_Contains lq (runes ''first vowel'') then Some (StrV (runes ''a''))
      else if strings_Contains lq (runes ''last vowel'') then Some (StrV (runes ''u''))
      else f ''contains_character'')"
  by (simp add: vowel_rules_def)

lemma vowel_rules_other: "k \<noteq> ''contains_character'' \<Longrightarrow> vowel_rules lq f k = f k"
  by (simp add: vowel_rules_def)

lemmas rules_other = word_count_rules_other palindrome_rule_other longer_rule_other
  shorter_rule_other char_rule_other vowel_rules_other

lemma parsed_filters_word_count:
  "parsed_filters lq ''word_count'' =
     (if strings_Contains lq (runes ''single word'') then Some (IntV 1)
      else if strings_Contains lq (runes ''two word'') \<or> strings_Contains lq (runes ''2 word'')
        then Some (IntV 2)
      else if strings_Contains lq (runes ''three word'') \<or> strings_Contains lq (runes ''3 word'')
        then Some (IntV 3)
      else None)"
  by (simp add: parsed_filters_def rules_other word_count_rules_key)

lemma parsed_filters_is_palindrome:
  "parsed_filters lq ''is_palindrome'' =
     (if strings_Contains lq (runes ''palindrom'') then Some (BoolV True) else None)"
  by (simp add: parsed_filters_def rules_other palindrome_rule_key word_count_rules_other)

lemma parsed_filters_min_length:
  "parsed_filters lq ''min_length'' =
     map_option (\<lambda>m1. IntV (wrap_int (Sscanf_d m1 0 + 1))) (lengthPattern lq)"
  by (simp add: parsed_filters_def rules_other longer_rule_key split: option.splits)

lemma parsed_filters_max_length:
  "parsed_filters lq ''max_length'' =
     map_option (\<lambda>m1. IntV (wrap_int (Sscanf_d m1 0 - 1))) (shorterPattern lq)"
  by (simp add: parsed_filters_def rules_other shorter_rule_key split: option.splits)

lemma parsed_filters_contains_character:
  "parsed_filters lq ''contains_character'' =
     (if strings_Contains lq (runes ''first vowel'') then Some (StrV (runes ''a''))
      else if strings_Contains lq (runes ''last vowel'') then Some (StrV (runes ''u''))
      else map_option StrV (charPattern lq))"
  by (simp add: parsed_filters_def rules_other vowel_rules_key char_rule_key
      split: option.splits)

lemma parsed_filters_other:
  assumes "k \<noteq> ''word_count''" "k \<noteq> ''is_palindrome''" "k \<noteq> ''min_length''"
    "k \<noteq> ''max_length''" "k \<noteq> ''contains_character''"
  shows "parsed_filters lq k = None"
  using assms by (simp add: parsed_filters_def rules_other)

lemma dom_parsed_filters:
  "dom (parsed_filters lq)
     \<subseteq> {''word_count'', ''is_palindrome'', ''min_length'', ''max_length'', ''contains_character''}"
proof
  fix k assume k: "k \<in> dom (parsed_filters lq)"
  show "k \<in> {''word_count'', ''is_palindrome'', ''min_length'', ''max_length'',
              ''contains_character''}"
  proof (rule ccontr)
    assume "k \<notin> {''word_count'', ''is_palindrome'', ''min_length'', ''max_length'',
                  ''contains_character''}"
    then have "k \<noteq> ''word_count''" "k \<noteq> ''is_palindrome''" "k \<noteq> ''min_length''"
      "k \<noteq> ''max_length''" "k \<noteq> ''contains_character''"
      by simp_all
    then have "parsed_filters lq k = None" by (rule parsed_filters_other)
    with k show False by (simp add: dom_def)
  qed
qed

lemma parseNaturalLanguageQuery_Inr:
  "parsed_filters (strings_ToLower tbl query) k = Some v \<Longrightarrow>
   parseNaturalLanguageQuery tbl query = Inr (parsed_filters (strings_ToLower tbl query))"
  by (auto simp: parseNaturalLanguageQuery_def Let_def)

lemma parseNaturalLanguageQuery_Inr_iff:
  "parseNaturalLanguageQuery tbl query = Inr f \<longleftrightarrow>
     f = parsed_filters (strings_ToLower tbl query) \<and> dom f \<noteq> {}"
  by (auto simp: parseNaturalLanguageQuery_def Let_def)

lemmas matcher_simps = lengthPattern_def shorterPattern_def charPattern_def charPattern_at_def
  article_at_def after_lit_def quoted_lower_at_def lower_at_def or_else_def lit_digits_at_def
  re_digit_def re_lower_def

lemmas rule_defs = parsed_filters_def vowel_rules_def char_rule_def shorter_rule_def
  longer_rule_def palindrome_rule_def word_count_rules_def

lemmas lower_simps = strings_ToLower_def unicode_ToLower_def runes_def

subsection \<open>The query translator: rules on the same key\<close>

text \<open>The example of the specification: two rules fire on one query.\<close>

lemma single_word_palindromes:
  "parseNaturalLanguageQuery tbl (runes ''single word palindromes'')
     = Inr [''word_count'' \<mapsto> IntV 1, ''is_palindrome'' \<mapsto> BoolV True]"
proof -
  have low: "strings_ToLower tbl (runes ''single word palindromes'')
      = runes ''single word palindromes''"
    by (simp add: lower_simps)
  have pf: "parsed_filters (runes ''single word palindromes'')
      = [''word_count'' \<mapsto> IntV 1, ''is_palindrome'' \<mapsto> BoolV True]"
    by (simp add: rule_defs matcher_simps runes_def)
  show ?thesis by (simp add: parseNaturalLanguageQuery_def Let_def low pf)
qed

text \<open>
  C2 (as amended). The translator runs six statements one after the other and several
  may each contribute a filter. The three word-count rules are one \<open>if\<close>/\<open>else if\<close>
  chain, and so are the two vowel rules: in a chain the first rule that matches, in the
  declared order, gives the value and the rules after it are not tried. The vowel chain
  comes after the contains-character rule and overwrites its value.
\<close>

theorem translator_value_of_each_key:
  assumes "parseNaturalLanguageQuery tbl query = Inr f"
    and "lq = strings_ToLower tbl query"
  shows "f ''word_count'' =
           (if strings_Contains lq (runes ''single word'') then Some (IntV 1)
            else if strings_Contains lq (runes ''two word'')
                    \<or> strings_Contains lq (runes ''2 word'') then Some (IntV 2)
            else if strings_Contains lq (runes ''three word'')
                    \<or> strings_Contains lq (runes ''3 word'') then Some (IntV 3)
            else None)
       \<and> f ''is_palindrome'' =
           (if strings_Contains lq (runes ''palindrom'') then Some (BoolV True) else None)
       \<and> f ''min_length'' =
           map_option (\<lambda>m1. IntV (wrap_int (Sscanf_d m1 0 + 1))) (lengthPattern lq)
       \<and> f ''max_length'' =
           map_option (\<lambda>m1. IntV (wrap_int (Sscanf_d m1 0 - 1))) (shorterPattern lq)
       \<and> f ''contains_character'' =
           (if strings_Contains lq (runes ''first vowel'') then Some (StrV (runes ''a''))
            else if strings_Contains lq (runes ''last vowel'') then Some (StrV (runes ''u''))
            else map_option StrV (charPattern lq))
       \<and> dom f \<subseteq> {''word_count'', ''is_palindrome'', ''min_length'', ''max_length'',
                    ''contains_character''}"
proof -
  from assms have f: "f = parsed_filters lq"
    by (simp add: parseNaturalLanguageQuery_Inr_iff)
  show ?thesis
    unfolding f
    using parsed_filters_word_count [of lq] parsed_filters_is_palindrome [of lq]
      parsed_filters_min_length [of lq] parsed_filters_max_length [of lq]
      parsed_filters_contains_character [of lq] dom_parsed_filters [of lq]
    by blast
qed

lemma several_rules_query_lower:
  "strings_ToLower (\<lambda>r. r) several_rules_query
     = runes ''single word two word palindromes with the first vowel''"
  by (simp add: several_rules_query_def lower_simps)

lemma several_rules_query_parsed:
  "parsed_filters (runes ''single word two word palindromes with the first vowel'')
     = [''word_count'' \<mapsto> IntV 1, ''is_palindrome'' \<mapsto> BoolV True,
        ''contains_character'' \<mapsto> StrV (runes ''f''),
        ''contains_character'' \<mapsto> StrV (runes ''a'')]"
  by (simp add: rule_defs matcher_simps runes_def)

text \<open>
  A query on which "single word" and "two word" both match, and the contains-character
  rule (which reads \<open>f\<close>) as well as "first vowel".
\<close>

theorem translator_value_of_each_key_witness:
  "parseNaturalLanguageQuery (\<lambda>r. r) several_rules_query
     = Inr [''word_count'' \<mapsto> IntV 1, ''is_palindrome'' \<mapsto> BoolV True,
            ''contains_character'' \<mapsto> StrV (runes ''a'')]
   \<and> strings_Contains (strings_ToLower (\<lambda>r. r) several_rules_query) (runes ''single word'')
   \<and> strings_Contains (strings_ToLower (\<lambda>r. r) several_rules_query) (runes ''two word'')
   \<and> charPattern (strings_ToLower (\<lambda>r. r) several_rules_query) = Some (runes ''f'')"
proof -
  let ?f = "[''word_count'' \<mapsto> IntV 1, ''is_palindrome'' \<mapsto> BoolV True,
            ''contains_character'' \<mapsto> StrV (runes ''a'')]"
  have p: "parseNaturalLanguageQuery (\<lambda>r. r) several_rules_query = Inr ?f"
    by (simp add: parseNaturalLanguageQuery_def Let_def several_rules_query_lower
        several_rules_query_parsed)
  have c1: "strings_Contains (strings_ToLower (\<lambda>r. r) several_rules_query) (runes ''single word'')"
    unfolding several_rules_query_lower by (simp add: runes_def)
  have c2: "strings_Contains (strings_ToLower (\<lambda>r. r) several_rules_query) (runes ''two word'')"
    unfolding several_rules_query_lower by (simp add: runes_def)
  have c3: "strings_Contains (strings_ToLower (\<lambda>r. r) several_rules_query) (runes ''first vowel'')"
    unfolding several_rules_query_lower by (simp add: runes_def)
  have ch: "charPattern (strings_ToLower (\<lambda>r. r) several_rules_query) = Some (runes ''f'')"
    unfolding several_rules_query_lower by (simp add: matcher_simps runes_def)
  from translator_value_of_each_key [OF p refl]
  have "?f ''word_count'' = Some (IntV 1) \<and> ?f ''contains_character'' = Some (StrV (runes ''a''))"
    using c1 c3 by simp
  with p c1 c2 ch show ?thesis by blast
qed

text \<open>
  C2 as stated fails on "single word two word": rules 1 and 2 both match, the last of
  them would give \<open>wordCount = 2\<close>, and the code gives 1.
\<close>

theorem last_match_wins_counterexample:
  "strings_Contains (strings_ToLower (\<lambda>r. r) (runes ''single word two word'')) (runes ''single word'')
   \<and> strings_Contains (strings_ToLower (\<lambda>r. r) (runes ''single word two word'')) (runes ''two word'')
   \<and> spec_last_match_wins (strings_ToLower (\<lambda>r. r) (runes ''single word two word'')) ''word_count''
       = Some (IntV 2)
   \<and> parseNaturalLanguageQuery (\<lambda>r. r) (runes ''single word two word'')
       = Inr [''word_count'' \<mapsto> IntV 1]"
proof -
  have low: "strings_ToLower (\<lambda>r. r) (runes ''single word two word'')
      = runes ''single word two word''"
    by (simp add: lower_simps)
  have c1: "strings_Contains (runes ''single word two word'') (runes ''single word'')"
    by (simp add: runes_def)
  have c2: "strings_Contains (runes ''single word two word'') (runes ''two word'')"
    by (simp add: runes_def)
  have sp: "spec_last_match_wins (runes ''single word two word'') ''word_count'' = Some (IntV 2)"
    by (simp add: spec_last_match_wins_def spec_rule_def rule_defs matcher_simps runes_def)
  have pf: "parsed_filters (runes ''single word two word'') = [''word_count'' \<mapsto> IntV 1]"
    by (simp add: rule_defs matcher_simps runes_def)
  have p: "parseNaturalLanguageQuery (\<lambda>r. r) (runes ''single word two word'')
       = Inr [''word_count'' \<mapsto> IntV 1]"
    by (simp add: parseNaturalLanguageQuery_def Let_def low pf)
  from c1 c2 sp p show ?thesis unfolding low by blast
qed

subsection \<open>The query translator: length bounds\<close>

lemma Sscanf_d_in_range: "decimal ds \<le> 9223372036854775807 \<Longrightarrow> Sscanf_d ds var = decimal ds"
  by (simp add: Sscanf_d_def)

lemma longer_than_plus_one:
  assumes occ: "first_number_after (runes ''longer than '') (strings_ToLower tbl query) ds"
    and bound: "decimal ds < 9223372036854775807"
  shows "\<exists>f. parseNaturalLanguageQuery tbl query = Inr f
            \<and> f ''min_length'' = Some (IntV (decimal ds + 1))"
proof -
  let ?lq = "strings_ToLower tbl query"
  have m: "lengthPattern ?lq = Some ds"
    unfolding lengthPattern_def using occ by (rule find_lit_digits_first)
  from occ have "\<forall>d \<in> set ds. re_digit d" unfolding first_number_after_def by blast
  then have nonneg: "0 \<le> decimal ds" by (rule decimal_nonneg)
  have "Sscanf_d ds 0 = decimal ds" using bound by (simp add: Sscanf_d_in_range)
  moreover have "wrap_int (decimal ds + 1) = decimal ds + 1"
    using nonneg bound by (intro wrap_int_in_range) simp_all
  ultimately have v: "parsed_filters ?lq ''min_length'' = Some (IntV (decimal ds + 1))"
    by (simp add: parsed_filters_min_length m)
  then have "parseNaturalLanguageQuery tbl query = Inr (parsed_filters ?lq)"
    by (rule parseNaturalLanguageQuery_Inr)
  with v show ?thesis by blast
qed

lemma shorter_than_minus_one:
  assumes occ: "first_number_after (runes ''shorter than '') (strings_ToLower tbl query) ds"
    and bound: "decimal ds \<le> 9223372036854775807"
  shows "\<exists>f. parseNaturalLanguageQuery tbl query = Inr f
            \<and> f ''max_length'' = Some (IntV (decimal ds - 1))"
proof -
  let ?lq = "strings_ToLower tbl query"
  have m: "shorterPattern ?lq = Some ds"
    unfolding shorterPattern_def using occ by (rule find_lit_digits_first)
  from occ have "\<forall>d \<in> set ds. re_digit d" unfolding first_number_after_def by blast
  then have nonneg: "0 \<le> decimal ds" by (rule decimal_nonneg)
  have "Sscanf_d ds 0 = decimal ds" using bound by (simp add: Sscanf_d_in_range)
  moreover have "wrap_int (decimal ds - 1) = decimal ds - 1"
    using nonneg bound by (intro wrap_int_in_range) simp_all
  ultimately have v: "parsed_filters ?lq ''max_length'' = Some (IntV (decimal ds - 1))"
    by (simp add: parsed_filters_max_length m)
  then have "parseNaturalLanguageQuery tbl query = Inr (parsed_filters ?lq)"
    by (rule parseNaturalLanguageQuery_Inr)
  with v show ?thesis by blast
qed

lemma strings_longer_than_10:
  "parseNaturalLanguageQuery tbl (runes ''strings longer than 10'') = Inr [''min_length'' \<mapsto> IntV 11]"
proof -
  have low: "strings_ToLower tbl (runes ''strings longer than 10'') = runes ''strings longer than 10''"
    by (simp add: lower_simps)
  have pf: "parsed_filters (runes ''strings longer than 10'') = [''min_length'' \<mapsto> IntV 11]"
    by (simp add: rule_defs matcher_simps runes_def Sscanf_d_def decimal_def wrap_int_def)
  show ?thesis
    by (simp add: parseNaturalLanguageQuery_def Let_def low pf)
qed

text \<open>
  C7 (as amended). When the leftmost "longer than " that a digit follows is followed by
  the digits of \<open>N\<close>, and \<open>N + 1\<close> fits Go's \<open>int\<close>, the translator produces
  \<open>minLength = N + 1\<close>; likewise "shorter than " and \<open>maxLength = N - 1\<close>, for \<open>N\<close> that
  fits \<open>int\<close>. "strings longer than 10" yields \<open>{minLength: 11}\<close>.
\<close>

theorem longer_shorter_strict_bounds:
  "(first_number_after (runes ''longer than '') (strings_ToLower tbl query) ds
      \<and> decimal ds < 9223372036854775807
    \<longrightarrow> (\<exists>f. parseNaturalLanguageQuery tbl query = Inr f
             \<and> f ''min_length'' = Some (IntV (decimal ds + 1))))
   \<and> (first_number_after (runes ''shorter than '') (strings_ToLower tbl query) ds
      \<and> decimal ds \<le> 9223372036854775807
    \<longrightarrow> (\<exists>f. parseNaturalLanguageQuery tbl query = Inr f
             \<and> f ''max_length'' = Some (IntV (decimal ds - 1))))
   \<and> parseNaturalLanguageQuery tbl (runes ''strings longer than 10'')
       = Inr [''min_length'' \<mapsto> IntV 11]"
  using longer_than_plus_one [of tbl query ds] shorter_than_minus_one [of tbl query ds]
    strings_longer_than_10 [of tbl]
  by blast

lemma longer_shorter_query_lower:
  "strings_ToLower (\<lambda>r. r) longer_shorter_query
     = runes ''strings longer than 10 and shorter than 20''"
  by (simp add: longer_shorter_query_def lower_simps)

lemma longer_shorter_query_longer:
  "first_number_after (runes ''longer than '')
     (runes ''strings longer than 10 and shorter than 20'') (runes ''10'')"
  unfolding first_number_after_def
proof (intro exI conjI)
  show "runes ''strings longer than 10 and shorter than 20''
      = runes ''strings '' @ runes ''longer than '' @ runes ''10'' @ runes '' and shorter than 20''"
    by (simp add: runes_def)
  show "runes ''10'' \<noteq> []" by (simp add: runes_def)
  show "\<forall>d \<in> set (runes ''10''). re_digit d" by (simp add: runes_def re_digit_def)
  show "runes '' and shorter than 20'' = [] \<or> \<not> re_digit (hd (runes '' and shorter than 20''))"
    by (simp add: runes_def re_digit_def)
  show "\<forall>i < length (runes ''strings ''). \<forall>d rest.
          drop i (runes ''strings longer than 10 and shorter than 20'')
            = runes ''longer than '' @ d # rest \<longrightarrow> \<not> re_digit d"
    by (simp add: runes_def eval_nat_numeral All_less_Suc)
qed

lemma longer_shorter_query_shorter:
  "first_number_after (runes ''shorter than '')
     (runes ''strings longer than 10 and shorter than 20'') (runes ''20'')"
  unfolding first_number_after_def
proof (intro exI conjI)
  show "runes ''strings longer than 10 and shorter than 20''
      = runes ''strings longer than 10 and '' @ runes ''shorter than '' @ runes ''20'' @ []"
    by (simp add: runes_def)
  show "runes ''20'' \<noteq> []" by (simp add: runes_def)
  show "\<forall>d \<in> set (runes ''20''). re_digit d" by (simp add: runes_def re_digit_def)
  show "[] = [] \<or> \<not> re_digit (hd ([] :: gostring))" by simp
  show "\<forall>i < length (runes ''strings longer than 10 and ''). \<forall>d rest.
          drop i (runes ''strings longer than 10 and shorter than 20'')
            = runes ''shorter than '' @ d # rest \<longrightarrow> \<not> re_digit d"
    by (simp add: runes_def eval_nat_numeral All_less_Suc)
qed

text \<open>A query with both patterns: \<open>minLength = 11\<close> and \<open>maxLength = 19\<close>.\<close>

theorem longer_shorter_strict_bounds_witness:
  "first_number_after (runes ''longer than '')
     (strings_ToLower (\<lambda>r. r) longer_shorter_query) (runes ''10'')
   \<and> first_number_after (runes ''shorter than '')
     (strings_ToLower (\<lambda>r. r) longer_shorter_query) (runes ''20'')
   \<and> decimal (runes ''10'') = 10 \<and> decimal (runes ''20'') = 20
   \<and> (\<exists>f. parseNaturalLanguageQuery (\<lambda>r. r) longer_shorter_query = Inr f
          \<and> f ''min_length'' = Some (IntV 11))
   \<and> (\<exists>f. parseNaturalLanguageQuery (\<lambda>r. r) longer_shorter_query = Inr f
          \<and> f ''max_length'' = Some (IntV 19))"
proof -
  have l: "first_number_after (runes ''longer than '')
     (strings_ToLower (\<lambda>r. r) longer_shorter_query) (runes ''10'')"
    unfolding longer_shorter_query_lower by (rule longer_shorter_query_longer)
  have s: "first_number_after (runes ''shorter than '')
     (strings_ToLower (\<lambda>r. r) longer_shorter_query) (runes ''20'')"
    unfolding longer_shorter_query_lower by (rule longer_shorter_query_shorter)
  have d10: "decimal (runes ''10'') = 10" by (simp add: decimal_def runes_def)
  have d20: "decimal (runes ''20'') = 20" by (simp add: decimal_def runes_def)
  have "\<exists>f. parseNaturalLanguageQuery (\<lambda>r. r) longer_shorter_query = Inr f
          \<and> f ''min_length'' = Some (IntV 11)"
    using longer_shorter_strict_bounds [of "\<lambda>r. r" longer_shorter_query "runes ''10''"] l d10
    by simp
  moreover have "\<exists>f. parseNaturalLanguageQuery (\<lambda>r. r) longer_shorter_query = Inr f
          \<and> f ''max_length'' = Some (IntV 19)"
    using longer_shorter_strict_bounds [of "\<lambda>r. r" longer_shorter_query "runes ''20''"] s d20
    by simp
  ultimately show ?thesis using l s d10 d20 by blast
qed

text \<open>
  C7 as stated fails at \<open>N = 9223372036854775807\<close>: \<open>minLength + 1\<close> wraps around and
  the filter is \<open>-9223372036854775808\<close>, not \<open>N + 1\<close>.
\<close>

theorem longer_than_overflow_counterexample:
  "first_number_after (runes ''longer than '')
     (strings_ToLower (\<lambda>r. r) (runes ''longer than 9223372036854775807''))
     (runes ''9223372036854775807'')
   \<and> decimal (runes ''9223372036854775807'') = 9223372036854775807
   \<and> parseNaturalLanguageQuery (\<lambda>r. r) (runes ''longer than 9223372036854775807'')
       = Inr [''min_length'' \<mapsto> IntV (- 9223372036854775808)]"
proof -
  have low: "strings_ToLower (\<lambda>r. r) (runes ''longer than 9223372036854775807'')
      = runes ''longer than 9223372036854775807''"
    by (simp add: lower_simps)
  have occ: "first_number_after (runes ''longer than '')
     (runes ''longer than 9223372036854775807'') (runes ''9223372036854775807'')"
    unfolding first_number_after_def
  proof (intro exI conjI)
    show "runes ''longer than 9223372036854775807''
        = [] @ runes ''longer than '' @ runes ''9223372036854775807'' @ []"
      by (simp add: runes_def)
    show "runes ''9223372036854775807'' \<noteq> []" by (simp add: runes_def)
    show "\<forall>d \<in> set (runes ''9223372036854775807''). re_digit d"
      by (simp add: runes_def re_digit_def)
    show "[] = [] \<or> \<not> re_digit (hd ([] :: gostring))" by simp
    show "\<forall>i < length ([] :: gostring). \<forall>d rest.
          drop i (runes ''longer than 9223372036854775807'')
            = runes ''longer than '' @ d # rest \<longrightarrow> \<not> re_digit d"
      by simp
  qed
  have d: "decimal (runes ''9223372036854775807'') = 9223372036854775807"
    by (simp add: decimal_def runes_def)
  have pf: "parsed_filters (runes ''longer than 9223372036854775807'')
      = [''min_length'' \<mapsto> IntV (- 9223372036854775808)]"
    by (simp add: rule_defs matcher_simps runes_def Sscanf_d_def decimal_def wrap_int_def)
  have p: "parseNaturalLanguageQuery (\<lambda>r. r) (runes ''longer than 9223372036854775807'')
       = Inr [''min_length'' \<mapsto> IntV (- 9223372036854775808)]"
    by (simp add: parseNaturalLanguageQuery_def Let_def low pf)
  from occ d p show ?thesis unfolding low by blast
qed

text \<open>
  A number above \<open>math.MaxInt64\<close> is not read at all, and of two occurrences the
  leftmost counts.
\<close>

lemma longer_than_unreadable_number:
  "parseNaturalLanguageQuery tbl (runes ''longer than 99999999999999999999'')
     = Inr [''min_length'' \<mapsto> IntV 1]"
proof -
  have low: "strings_ToLower tbl (runes ''longer than 99999999999999999999'')
      = runes ''longer than 99999999999999999999''"
    by (simp add: lower_simps)
  have pf: "parsed_filters (runes ''longer than 99999999999999999999'')
      = [''min_length'' \<mapsto> IntV 1]"
    by (simp add: rule_defs matcher_simps runes_def Sscanf_d_def decimal_def wrap_int_def)
  show ?thesis by (simp add: parseNaturalLanguageQuery_def Let_def low pf)
qed

lemma longer_than_leftmost:
  "parseNaturalLanguageQuery tbl (runes ''longer than 5 or longer than 10'')
     = Inr [''min_length'' \<mapsto> IntV 6]"
proof -
  have low: "strings_ToLower tbl (runes ''longer than 5 or longer than 10'')
      = runes ''longer than 5 or longer than 10''"
    by (simp add: lower_simps)
  have pf: "parsed_filters (runes ''longer than 5 or longer than 10'')
      = [''min_length'' \<mapsto> IntV 6]"
    by (simp add: rule_defs matcher_simps runes_def Sscanf_d_def decimal_def wrap_int_def)
  show ?thesis by (simp add: parseNaturalLanguageQuery_def Let_def low pf)
qed

subsection \<open>The query translator: failure\<close>

lemma parsed_filters_apply:
  "parsed_filters lq k =
     (if k = ''word_count'' then parsed_filters lq ''word_count''
      else if k = ''is_palindrome'' then parsed_filters lq ''is_palindrome''
      else if k = ''min_length'' then parsed_filters lq ''min_length''
      else if k = ''max_length'' then parsed_filters lq ''max_length''
      else if k = ''contains_character'' then parsed_filters lq ''contains_character''
      else None)"
  by (simp add: parsed_filters_other)

lemma parsed_filters_empty_iff:
  "dom (parsed_filters lq) = {} \<longleftrightarrow>
     (\<not> strings_Contains lq (runes ''single word'')
      \<and> \<not> strings_Contains lq (runes ''two word'') \<and> \<not> strings_Contains lq (runes ''2 word'')
      \<and> \<not> strings_Contains lq (runes ''three word'') \<and> \<not> strings_Contains lq (runes ''3 word'')
      \<and> \<not> strings_Contains lq (runes ''palindrom'')
      \<and> lengthPattern lq = None \<and> shorterPattern lq = None \<and> charPattern lq = None
      \<and> \<not> strings_Contains lq (runes ''first vowel'')
      \<and> \<not> strings_Contains lq (runes ''last vowel''))"
  (is "?L \<longleftrightarrow> ?R")
proof
  assume ?L
  then have none: "parsed_filters lq k = None" for k
    by (auto simp: dom_def)
  have wc: "parsed_filters lq ''word_count'' = None" by (rule none)
  have ip: "parsed_filters lq ''is_palindrome'' = None" by (rule none)
  have mn: "parsed_filters lq ''min_length'' = None" by (rule none)
  have mx: "parsed_filters lq ''max_length'' = None" by (rule none)
  have cc: "parsed_filters lq ''contains_character'' = None" by (rule none)
  from wc have 1: "\<not> strings_Contains lq (runes ''single word'')
      \<and> \<not> strings_Contains lq (runes ''two word'') \<and> \<not> strings_Contains lq (runes ''2 word'')
      \<and> \<not> strings_Contains lq (runes ''three word'') \<and> \<not> strings_Contains lq (runes ''3 word'')"
    unfolding parsed_filters_word_count by (simp split: if_splits)
  from ip have 2: "\<not> strings_Contains lq (runes ''palindrom'')"
    unfolding parsed_filters_is_palindrome by (simp split: if_splits)
  from mn have 3: "lengthPattern lq = None"
    unfolding parsed_filters_min_length by simp
  from mx have 4: "shorterPattern lq = None"
    unfolding parsed_filters_max_length by simp
  from cc have 5: "charPattern lq = None \<and> \<not> strings_Contains lq (runes ''first vowel'')
      \<and> \<not> strings_Contains lq (runes ''last vowel'')"
    unfolding parsed_filters_contains_character by (simp split: if_splits)
  from 1 2 3 4 5 show ?R by blast
next
  assume r: ?R
  have "parsed_filters lq k = None" for k
    using r
    by (subst parsed_filters_apply)
       (simp add: parsed_filters_word_count parsed_filters_is_palindrome
          parsed_filters_min_length parsed_filters_max_length
          parsed_filters_contains_character)
  then show ?L by (auto simp: dom_def)
qed

lemma gibberish_xyzzy:
  "parseNaturalLanguageQuery tbl (runes ''gibberish xyzzy'') = Inl UnableToParse"
proof -
  have low: "strings_ToLower tbl (runes ''gibberish xyzzy'') = runes ''gibberish xyzzy''"
    by (simp add: lower_simps)
  have pf: "parsed_filters (runes ''gibberish xyzzy'') = Map.empty"
    by (simp add: rule_defs matcher_simps runes_def)
  show ?thesis by (simp add: parseNaturalLanguageQuery_def Let_def low pf)
qed

text \<open>
  The contains-character expression wants a space right after "contain" or "with":
  "containing" does not match, and nothing else of this query does.
\<close>

lemma containing_letter_z:
  "parseNaturalLanguageQuery tbl (runes ''strings containing letter z'') = Inl UnableToParse"
proof -
  have low: "strings_ToLower tbl (runes ''strings containing letter z'')
      = runes ''strings containing letter z''"
    by (simp add: lower_simps)
  have pf: "parsed_filters (runes ''strings containing letter z'') = Map.empty"
    by (simp add: rule_defs matcher_simps runes_def)
  show ?thesis by (simp add: parseNaturalLanguageQuery_def Let_def low pf)
qed

text \<open>
  C8. The translator fails if and only if none of its patterns matches the lowered
  query. On that failure \<open>filterByNaturalLanguage\<close> answers 400 Bad Request with no
  data, and it never changes the store. "gibberish xyzzy" fails.
\<close>

theorem parse_error_iff_no_pattern:
  "(parseNaturalLanguageQuery tbl query = Inl UnableToParse \<longleftrightarrow>
      (\<not> strings_Contains (strings_ToLower tbl query) (runes ''single word'')
       \<and> \<not> strings_Contains (strings_ToLower tbl query) (runes ''two word'')
       \<and> \<not> strings_Contains (strings_ToLower tbl query) (runes ''2 word'')
       \<and> \<not> strings_Contains (strings_ToLower tbl query) (runes ''three word'')
       \<and> \<not> strings_Contains (strings_ToLower tbl query) (runes ''3 word'')
       \<and> \<not> strings_Contains (strings_ToLower tbl query) (runes ''palindrom'')
       \<and> lengthPattern (strings_ToLower tbl query) = None
       \<and> shorterPattern (strings_ToLower tbl query) = None
       \<and> charPattern (strings_ToLower tbl query) = None
       \<and> \<not> strings_Contains (strings_ToLower tbl query) (runes ''first vowel'')
       \<and> \<not> strings_Contains (strings_ToLower tbl query) (runes ''last vowel'')))
   \<and> (parseNaturalLanguageQuery tbl query = Inl UnableToParse \<longrightarrow>
        filterByNaturalLanguage tbl srt ks stringStore query = (StatusBadRequest, stringStore))
   \<and> snd (filterByNaturalLanguage tbl srt ks stringStore query) = stringStore
   \<and> parseNaturalLanguageQuery tbl (runes ''gibberish xyzzy'') = Inl UnableToParse"
proof (intro conjI)
  show "parseNaturalLanguageQuery tbl query = Inl UnableToParse \<longleftrightarrow>
      (\<not> strings_Contains (strings_ToLower tbl query) (runes ''single word'')
       \<and> \<not> strings_Contains (strings_ToLower tbl query) (runes ''two word'')
       \<and> \<not> strings_Contains (strings_ToLower tbl query) (runes ''2 word'')
       \<and> \<not> strings_Contains (strings_ToLower tbl query) (runes ''three word'')
       \<and> \<not> strings_Contains (strings_ToLower tbl query) (runes ''3 word'')
       \<and> \<not> strings_Contains (strings_ToLower tbl query) (runes ''palindrom'')
       \<and> lengthPattern (strings_ToLower tbl query) = None
       \<and> shorterPattern (strings_ToLower tbl query) = None
       \<and> charPattern (strings_ToLower tbl query) = None
       \<and> \<not> strings_Contains (strings_ToLower tbl query) (runes ''first vowel'')
       \<and> \<not> strings_Contains (strings_ToLower tbl query) (runes ''last vowel''))"
    unfolding parsed_filters_empty_iff [symmetric]
    by (simp add: parseNaturalLanguageQuery_def Let_def)
  show "parseNaturalLanguageQuery tbl query = Inl UnableToParse \<longrightarrow>
        filterByNaturalLanguage tbl srt ks stringStore query = (StatusBadRequest, stringStore)"
    by (simp add: filterByNaturalLanguage_def)
  show "snd (filterByNaturalLanguage tbl srt ks stringStore query) = stringStore"
    by (simp add: filterByNaturalLanguage_def Let_def split: sum.splits)
  show "parseNaturalLanguageQuery tbl (runes ''gibberish xyzzy'') = Inl UnableToParse"
    by (rule gibberish_xyzzy)
qed

text \<open>The handler on "gibberish xyzzy".\<close>

theorem parse_error_witness:
  "filterByNaturalLanguage (\<lambda>r. r) insertionSort [] Map.empty (runes ''gibberish xyzzy'')
     = (StatusBadRequest, Map.empty)"
  using parse_error_iff_no_pattern
    [of "\<lambda>r. r" "runes ''gibberish xyzzy''" insertionSort "[]" Map.empty]
  by blast

subsection \<open>Enumeration of the store\<close>

text \<open>The insertion sort keeps what \<open>sort.Slice\<close> promises.\<close>

lemma matchesFilters_no_filters: "matchesFilters tbl analyzed no_filters"
  by (simp add: matchesFilters_def no_filters_def)

lemma mset_insert_left: "mset (insert_left lt x ys) = add_mset x (mset ys)"
  by (induction ys) simp_all

lemma set_insert_left: "set (insert_left lt x ys) = insert x (set ys)"
  by (induction ys) auto

lemma sorted_insert_left:
  "sorted_wrt (\<lambda>a b. CreatedAt b \<le> CreatedAt a) ys \<Longrightarrow>
   sorted_wrt (\<lambda>a b. CreatedAt b \<le> CreatedAt a) (insert_left CreatedAt_Before x ys)"
proof (induction ys)
  case Nil
  show ?case by simp
next
  case (Cons y ys)
  show ?case
  proof (cases "CreatedAt_Before x y")
    case True
    with Cons show ?thesis
      by (auto simp: set_insert_left CreatedAt_Before_def)
  next
    case False
    with Cons.prems show ?thesis
      by (auto simp: CreatedAt_Before_def)
  qed
qed

lemma mset_foldl_insert_left:
  "mset (foldl (\<lambda>pre x. insert_left lt x pre) acc xs) = mset xs + mset acc"
  by (induction xs arbitrary: acc) (simp_all add: mset_insert_left)

lemma sorted_foldl_insert_left:
  "sorted_wrt (\<lambda>a b. CreatedAt b \<le> CreatedAt a) acc \<Longrightarrow>
   sorted_wrt (\<lambda>a b. CreatedAt b \<le> CreatedAt a)
     (foldl (\<lambda>pre x. insert_left CreatedAt_Before x pre) acc xs)"
  by (induction xs arbitrary: acc) (simp_all add: sorted_insert_left)

lemma insertionSort_contract: "sort_Slice_contract insertionSort"
  unfolding sort_Slice_contract_def
proof (intro allI conjI)
  fix xs :: "AnalyzedString list"
  show "mset (insertionSort CreatedAt_Before xs) = mset xs"
    by (simp add: insertionSort_def mset_foldl_insert_left)
  have "sorted_wrt (\<lambda>a b. CreatedAt b \<le> CreatedAt a)
          (foldl (\<lambda>pre x. insert_left CreatedAt_Before x pre) [] xs)"
    by (rule sorted_foldl_insert_left) simp
  then show "sorted_wrt (\<lambda>a b. \<not> CreatedAt_Before b a) (insertionSort CreatedAt_Before xs)"
    by (simp add: insertionSort_def sorted_wrt_rev CreatedAt_Before_def not_less)
qed

lemma sort_Slice_contractD:
  assumes "sort_Slice_contract srt"
  shows "mset (srt CreatedAt_Before xs) = mset xs"
    and "sorted (map CreatedAt (srt CreatedAt_Before xs))"
proof -
  from assms show "mset (srt CreatedAt_Before xs) = mset xs"
    unfolding sort_Slice_contract_def by blast
  from assms have "sorted_wrt (\<lambda>a b. \<not> CreatedAt_Before b a) (srt CreatedAt_Before xs)"
    unfolding sort_Slice_contract_def by blast
  then show "sorted (map CreatedAt (srt CreatedAt_Before xs))"
    by (simp add: sorted_map CreatedAt_Before_def not_less)
qed

lemma collect_matching_eq:
  "set ks \<subseteq> dom stringStore \<Longrightarrow>
   collect_matching tbl stringStore params ks
     = filter (\<lambda>a. matchesFilters tbl a params) (map (\<lambda>k. the (stringStore k)) ks)"
  by (induction ks) (auto simp: collect_matching_def List.map_filter_simps)

lemma mset_collect_matching:
  assumes "range_order stringStore ks"
  shows "mset (collect_matching tbl stringStore params ks)
       = filter_mset (\<lambda>a. matchesFilters tbl a params)
           (image_mset (\<lambda>k. the (stringStore k)) (mset_set (dom stringStore)))"
proof -
  from assms have d: "distinct ks" and s: "set ks = dom stringStore"
    by (simp_all add: range_order_def)
  from d have "mset_set (set ks) = mset ks" by (rule mset_set_set)
  with s have "mset_set (dom stringStore) = mset ks" by simp
  then show ?thesis using s by (simp add: collect_matching_eq)
qed

lemma data_of_getAllStrings:
  "data_of (getAllStrings tbl srt ks stringStore (Some params))
     = srt CreatedAt_Before (collect_matching tbl stringStore params ks)"
  by (simp add: data_of_def getAllStrings_def Let_def)

lemma sorted_by_key_unique:
  fixes f :: "'a \<Rightarrow> int"
  assumes m: "mset xs = mset ys"
    and sx: "sorted (map f xs)" and sy: "sorted (map f ys)"
    and inj: "inj_on f (set xs)" and dx: "distinct xs"
  shows "xs = ys"
proof -
  from m have set_eq: "set xs = set ys" by (rule mset_eq_setD)
  from m dx have dy: "distinct ys" using mset_eq_imp_distinct_iff by blast
  have "distinct (map f xs)" using dx inj by (simp add: distinct_map)
  moreover have "distinct (map f ys)" using dy inj set_eq by (simp add: distinct_map)
  moreover have "set (map f xs) = set (map f ys)" using set_eq by simp
  ultimately have "map f xs = map f ys"
    using sx sy by (intro sorted_distinct_set_unique)
  moreover have "inj_on f (set xs \<union> set ys)" using inj set_eq by simp
  ultimately show ?thesis by (simp add: inj_on_map_eq_map)
qed

lemma distinct_collect_matching:
  assumes r: "range_order stringStore ks"
    and inj: "inj_on (\<lambda>k. CreatedAt (the (stringStore k))) (dom stringStore)"
  shows "distinct (collect_matching tbl stringStore params ks)"
    and "inj_on CreatedAt (set (collect_matching tbl stringStore params ks))"
proof -
  from r have d: "distinct ks" and s: "set ks = dom stringStore"
    by (simp_all add: range_order_def)
  have inj_the: "inj_on (\<lambda>k. the (stringStore k)) (set ks)"
    using inj unfolding s inj_on_def by metis
  have "distinct (map (\<lambda>k. the (stringStore k)) ks)"
    using d inj_the by (simp add: distinct_map)
  then show "distinct (collect_matching tbl stringStore params ks)"
    using s by (simp add: collect_matching_eq)
  have "inj_on CreatedAt ((\<lambda>k. the (stringStore k)) ` set ks)"
    using inj unfolding s inj_on_def by auto
  then show "inj_on CreatedAt (set (collect_matching tbl stringStore params ks))"
    using s by (auto simp: collect_matching_eq inj_on_def)
qed

lemma getAllStrings_determined:
  assumes r: "range_order stringStore ks" and c: "sort_Slice_contract srt"
    and r': "range_order stringStore ks'" and c': "sort_Slice_contract srt'"
    and inj: "inj_on (\<lambda>k. CreatedAt (the (stringStore k))) (dom stringStore)"
  shows "data_of (getAllStrings tbl srt' ks' stringStore (Some params))
       = data_of (getAllStrings tbl srt ks stringStore (Some params))"
proof -
  let ?xs = "collect_matching tbl stringStore params ks"
  let ?xs' = "collect_matching tbl stringStore params ks'"
  have m: "mset (srt' CreatedAt_Before ?xs') = mset (srt CreatedAt_Before ?xs)"
    by (simp add: sort_Slice_contractD(1) [OF c] sort_Slice_contractD(1) [OF c']
        mset_collect_matching [OF r] mset_collect_matching [OF r'])
  have mx: "mset (srt' CreatedAt_Before ?xs') = mset ?xs'"
    by (rule sort_Slice_contractD(1) [OF c'])
  have "distinct ?xs'" by (rule distinct_collect_matching(1) [OF r' inj])
  then have dist: "distinct (srt' CreatedAt_Before ?xs')"
    using mx mset_eq_imp_distinct_iff by blast
  have "inj_on CreatedAt (set ?xs')" by (rule distinct_collect_matching(2) [OF r' inj])
  moreover have "set (srt' CreatedAt_Before ?xs') = set ?xs'"
    using mx by (rule mset_eq_setD)
  ultimately have inj': "inj_on CreatedAt (set (srt' CreatedAt_Before ?xs'))" by simp
  have "srt' CreatedAt_Before ?xs' = srt CreatedAt_Before ?xs"
    using m sort_Slice_contractD(2) [OF c'] sort_Slice_contractD(2) [OF c] inj' dist
    by (rule sorted_by_key_unique)
  then show ?thesis by (simp add: data_of_getAllStrings)
qed

lemma ShouldBindJSON_Some: "v \<noteq> [] \<Longrightarrow> ShouldBindJSON (Some v) = Some v"
  by (simp add: ShouldBindJSON_def)

lemma store_after_three:
  assumes ne: "v1 \<noteq> []" "v2 \<noteq> []" "v3 \<noteq> []"
    and h: "distinct [calculateSHA256 v1, calculateSHA256 v2, calculateSHA256 v3]"
  shows "store_after tbl [POST_strings (Some v1) t1, POST_strings (Some v2) t2,
                          POST_strings (Some v3) t3]
       = [calculateSHA256 v1 \<mapsto>
            \<lparr> ID = calculateSHA256 v1, Value = v1, Properties = analyzeString tbl v1,
              CreatedAt = t1 \<rparr>,
          calculateSHA256 v2 \<mapsto>
            \<lparr> ID = calculateSHA256 v2, Value = v2, Properties = analyzeString tbl v2,
              CreatedAt = t2 \<rparr>,
          calculateSHA256 v3 \<mapsto>
            \<lparr> ID = calculateSHA256 v3, Value = v3, Properties = analyzeString tbl v3,
              CreatedAt = t3 \<rparr>]"
proof -
  let ?h1 = "calculateSHA256 v1" and ?h2 = "calculateSHA256 v2" and ?h3 = "calculateSHA256 v3"
  let ?r1 = "\<lparr> ID = ?h1, Value = v1, Properties = analyzeString tbl v1, CreatedAt = t1 \<rparr>"
  let ?r2 = "\<lparr> ID = ?h2, Value = v2, Properties = analyzeString tbl v2, CreatedAt = t2 \<rparr>"
  let ?r3 = "\<lparr> ID = ?h3, Value = v3, Properties = analyzeString tbl v3, CreatedAt = t3 \<rparr>"
  from h have neq: "?h2 \<noteq> ?h1" "?h3 \<noteq> ?h1" "?h3 \<noteq> ?h2" by auto
  have c1: "createString tbl Map.empty t1 (Some v1) = (StatusCreated ?r1, [?h1 \<mapsto> ?r1])"
    by (simp add: createString_bound [OF ShouldBindJSON_Some [OF ne(1)]])
  have c2: "createString tbl [?h1 \<mapsto> ?r1] t2 (Some v2)
      = (StatusCreated ?r2, [?h1 \<mapsto> ?r1, ?h2 \<mapsto> ?r2])"
    using neq(1) by (simp add: createString_bound [OF ShouldBindJSON_Some [OF ne(2)]])
  have c3: "createString tbl [?h1 \<mapsto> ?r1, ?h2 \<mapsto> ?r2] t3 (Some v3)
      = (StatusCreated ?r3, [?h1 \<mapsto> ?r1, ?h2 \<mapsto> ?r2, ?h3 \<mapsto> ?r3])"
    using neq(2,3) by (simp add: createString_bound [OF ShouldBindJSON_Some [OF ne(3)]])
  show ?thesis
    by (simp add: store_after_def c1 c2 c3)
qed

lemma getAllStrings_three:
  assumes ne: "v1 \<noteq> []" "v2 \<noteq> []" "v3 \<noteq> []"
    and h: "distinct [calculateSHA256 v1, calculateSHA256 v2, calculateSHA256 v3]"
    and t: "t1 < t2" "t2 < t3"
    and st: "stringStore = store_after tbl [POST_strings (Some v1) t1, POST_strings (Some v2) t2,
                          POST_strings (Some v3) t3]"
    and r: "range_order stringStore ks" and c: "sort_Slice_contract srt"
  shows "map Value (data_of (getAllStrings tbl srt ks stringStore (Some no_filters)))
       = [v1, v2, v3]"
proof -
  let ?r1 = "\<lparr> ID = calculateSHA256 v1, Value = v1, Properties = analyzeString tbl v1,
              CreatedAt = t1 \<rparr>"
  let ?r2 = "\<lparr> ID = calculateSHA256 v2, Value = v2, Properties = analyzeString tbl v2,
              CreatedAt = t2 \<rparr>"
  let ?r3 = "\<lparr> ID = calculateSHA256 v3, Value = v3, Properties = analyzeString tbl v3,
              CreatedAt = t3 \<rparr>"
  let ?h1 = "calculateSHA256 v1" and ?h2 = "calculateSHA256 v2" and ?h3 = "calculateSHA256 v3"
  have store: "stringStore = [?h1 \<mapsto> ?r1, ?h2 \<mapsto> ?r2, ?h3 \<mapsto> ?r3]"
    unfolding st by (rule store_after_three [OF ne h])
  have dom: "dom stringStore = {?h1, ?h2, ?h3}"
    unfolding store by auto
  have look: "the (stringStore ?h1) = ?r1" "the (stringStore ?h2) = ?r2"
    "the (stringStore ?h3) = ?r3"
    using h unfolding store by simp_all
  have ms: "mset_set {?h1, ?h2, ?h3} = {#?h1, ?h2, ?h3#}"
    using h by simp
  let ?out = "data_of (getAllStrings tbl srt ks stringStore (Some no_filters))"
  have "mset ?out = image_mset (\<lambda>k. the (stringStore k)) (mset_set (dom stringStore))"
    by (simp add: data_of_getAllStrings sort_Slice_contractD(1) [OF c]
        mset_collect_matching [OF r] matchesFilters_no_filters)
  also have "\<dots> = {#?r1, ?r2, ?r3#}"
    unfolding dom ms by (simp add: look)
  finally have m: "mset [?r1, ?r2, ?r3] = mset ?out" by simp
  have so: "sorted (map CreatedAt ?out)"
    unfolding data_of_getAllStrings by (rule sort_Slice_contractD(2) [OF c])
  have "[?r1, ?r2, ?r3] = ?out"
    using m _ so
  proof (rule sorted_by_key_unique)
    show "sorted (map CreatedAt [?r1, ?r2, ?r3])" using t by simp
    show "inj_on CreatedAt (set [?r1, ?r2, ?r3])" using t by (simp add: inj_on_def)
    show "distinct [?r1, ?r2, ?r3]" using t by auto
  qed
  then have "?out = [?r1, ?r2, ?r3]" by simp
  then show ?thesis by simp
qed

text \<open>
  C3 (as amended). For every order in which Go ranges over the store and every sort
  that keeps the promise of \<open>sort.Slice\<close>, \<open>listAll\<close> returns exactly the current entries,
  each once, in non-decreasing \<open>createdAt\<close> order. There is no tiebreaker: only when the
  \<open>createdAt\<close> values of the entries are pairwise distinct is the result the same for
  every range order and every sort. After three values with distinct hashes are posted
  to the empty store at strictly increasing clock readings, they are returned in the
  order of insertion.
\<close>

theorem getAllStrings_sorted_by_CreatedAt:
  assumes "range_order stringStore ks" and "sort_Slice_contract srt"
  shows "mset (data_of (getAllStrings tbl srt ks stringStore (Some no_filters)))
           = image_mset (\<lambda>k. the (stringStore k)) (mset_set (dom stringStore))
       \<and> sorted (map CreatedAt (data_of (getAllStrings tbl srt ks stringStore (Some no_filters))))
       \<and> (inj_on (\<lambda>k. CreatedAt (the (stringStore k))) (dom stringStore) \<longrightarrow>
            (\<forall>srt' ks'. range_order stringStore ks' \<and> sort_Slice_contract srt' \<longrightarrow>
               data_of (getAllStrings tbl srt' ks' stringStore (Some no_filters))
                 = data_of (getAllStrings tbl srt ks stringStore (Some no_filters))))
       \<and> (v1 \<noteq> [] \<and> v2 \<noteq> [] \<and> v3 \<noteq> []
            \<and> distinct [calculateSHA256 v1, calculateSHA256 v2, calculateSHA256 v3]
            \<and> t1 < t2 \<and> t2 < t3
            \<and> stringStore = store_after tbl [POST_strings (Some v1) t1, POST_strings (Some v2) t2,
                                             POST_strings (Some v3) t3] \<longrightarrow>
            map Value (data_of (getAllStrings tbl srt ks stringStore (Some no_filters)))
              = [v1, v2, v3])"
proof (intro conjI impI allI)
  show "mset (data_of (getAllStrings tbl srt ks stringStore (Some no_filters)))
           = image_mset (\<lambda>k. the (stringStore k)) (mset_set (dom stringStore))"
    by (simp add: data_of_getAllStrings sort_Slice_contractD(1) [OF assms(2)]
        mset_collect_matching [OF assms(1)] matchesFilters_no_filters)
  show "sorted (map CreatedAt (data_of (getAllStrings tbl srt ks stringStore (Some no_filters))))"
    unfolding data_of_getAllStrings by (rule sort_Slice_contractD(2) [OF assms(2)])
next
  fix srt' ks'
  assume "inj_on (\<lambda>k. CreatedAt (the (stringStore k))) (dom stringStore)"
    and "range_order stringStore ks' \<and> sort_Slice_contract srt'"
  then show "data_of (getAllStrings tbl srt' ks' stringStore (Some no_filters))
                 = data_of (getAllStrings tbl srt ks stringStore (Some no_filters))"
    using getAllStrings_determined [OF assms, of ks' srt' tbl no_filters] by blast
next
  assume "v1 \<noteq> [] \<and> v2 \<noteq> [] \<and> v3 \<noteq> []
            \<and> distinct [calculateSHA256 v1, calculateSHA256 v2, calculateSHA256 v3]
            \<and> t1 < t2 \<and> t2 < t3
            \<and> stringStore = store_after tbl [POST_strings (Some v1) t1, POST_strings (Some v2) t2,
                                             POST_strings (Some v3) t3]"
  then show "map Value (data_of (getAllStrings tbl srt ks stringStore (Some no_filters)))
              = [v1, v2, v3]"
    using getAllStrings_three [of v1 v2 v3 t1 t2 t3 stringStore tbl ks srt] assms by blast
qed

text \<open>The hashes of "a", "b" and "c".\<close>

lemma calculateSHA256_a:
  "calculateSHA256 (runes ''a'')
     = runes ''ca978112ca1bbdcafac231b39a23dc4da786eff8147c4e72b9807785afee48bb''"
  by code_simp

lemma calculateSHA256_b:
  "calculateSHA256 (runes ''b'')
     = runes ''3e23e8160039594a33894f6564e1b1348bbd7a0088d42c4acb73eeaed59c009d''"
  by code_simp

lemma calculateSHA256_c:
  "calculateSHA256 (runes ''c'')
     = runes ''2e7d2c03a9507ae265ecf5b5356885a53393a2029d241394997265a1a25aefc6''"
  by code_simp

lemma hashes_a_b_c_distinct:
  "distinct [calculateSHA256 (runes ''b''), calculateSHA256 (runes ''a''),
             calculateSHA256 (runes ''c'')]"
  unfolding calculateSHA256_a calculateSHA256_b calculateSHA256_c by (simp add: runes_def)

lemma runes_not_Nil: "runes ''a'' \<noteq> []" "runes ''b'' \<noteq> []" "runes ''c'' \<noteq> []"
  by (simp_all add: runes_def)

text \<open>
  "b", "a", "c" posted at the readings 1, 2, 3 and ranged over in the order of their
  values come back as "b", "a", "c".
\<close>

theorem getAllStrings_sorted_by_CreatedAt_witness:
  "range_order (store_after (\<lambda>r. r) bac_requests)
     [calculateSHA256 (runes ''a''), calculateSHA256 (runes ''b''), calculateSHA256 (runes ''c'')]
   \<and> sort_Slice_contract insertionSort
   \<and> map Value (data_of (getAllStrings (\<lambda>r. r) insertionSort
        [calculateSHA256 (runes ''a''), calculateSHA256 (runes ''b''),
         calculateSHA256 (runes ''c'')]
        (store_after (\<lambda>r. r) bac_requests) (Some no_filters)))
     = [runes ''b'', runes ''a'', runes ''c'']"
proof -
  let ?ks = "[calculateSHA256 (runes ''a''), calculateSHA256 (runes ''b''),
              calculateSHA256 (runes ''c'')]"
  let ?store = "store_after (\<lambda>r. r) bac_requests"
  have store: "?store
      = [calculateSHA256 (runes ''b'') \<mapsto>
            \<lparr> ID = calculateSHA256 (runes ''b''), Value = runes ''b'',
              Properties = analyzeString (\<lambda>r. r) (runes ''b''), CreatedAt = 1 \<rparr>,
         calculateSHA256 (runes ''a'') \<mapsto>
            \<lparr> ID = calculateSHA256 (runes ''a''), Value = runes ''a'',
              Properties = analyzeString (\<lambda>r. r) (runes ''a''), CreatedAt = 2 \<rparr>,
         calculateSHA256 (runes ''c'') \<mapsto>
            \<lparr> ID = calculateSHA256 (runes ''c''), Value = runes ''c'',
              Properties = analyzeString (\<lambda>r. r) (runes ''c''), CreatedAt = 3 \<rparr>]"
    unfolding bac_requests_def
    by (rule store_after_three [OF runes_not_Nil(2) runes_not_Nil(1) runes_not_Nil(3)
          hashes_a_b_c_distinct])
  have r: "range_order ?store ?ks"
    unfolding store range_order_def using hashes_a_b_c_distinct by auto
  have c: "sort_Slice_contract insertionSort" by (rule insertionSort_contract)
  have "map Value (data_of (getAllStrings (\<lambda>r. r) insertionSort ?ks ?store (Some no_filters)))
      = [runes ''b'', runes ''a'', runes ''c'']"
    using getAllStrings_sorted_by_CreatedAt
      [OF r c, of "\<lambda>r. r" "runes ''b''" "runes ''a''" "runes ''c''" 1 2 3]
      runes_not_Nil hashes_a_b_c_distinct
    by (simp add: bac_requests_def)
  with r c show ?thesis by blast
qed

text \<open>
  C3 as stated fails when two entries share \<open>createdAt\<close>: "b" then "a" posted at the same
  reading of the clock are returned as "a", "b" when Go ranges over the key of "a"
  first, and as "b", "a" when it ranges over the key of "b" first.
\<close>

theorem getAllStrings_tie_counterexample:
  "range_order (store_after (\<lambda>r. r) tie_requests)
     [calculateSHA256 (runes ''a''), calculateSHA256 (runes ''b'')]
   \<and> sort_Slice_contract insertionSort
   \<and> map Value (data_of (getAllStrings (\<lambda>r. r) insertionSort
        [calculateSHA256 (runes ''a''), calculateSHA256 (runes ''b'')]
        (store_after (\<lambda>r. r) tie_requests) (Some no_filters)))
     = [runes ''a'', runes ''b'']
   \<and> range_order (store_after (\<lambda>r. r) tie_requests)
     [calculateSHA256 (runes ''b''), calculateSHA256 (runes ''a'')]
   \<and> map Value (data_of (getAllStrings (\<lambda>r. r) insertionSort
        [calculateSHA256 (runes ''b''), calculateSHA256 (runes ''a'')]
        (store_after (\<lambda>r. r) tie_requests) (Some no_filters)))
     = [runes ''b'', runes ''a'']"
proof -
  let ?ha = "calculateSHA256 (runes ''a'')" and ?hb = "calculateSHA256 (runes ''b'')"
  let ?ra = "\<lparr> ID = ?ha, Value = runes ''a'',
               Properties = analyzeString (\<lambda>r. r) (runes ''a''), CreatedAt = 0 \<rparr>"
  let ?rb = "\<lparr> ID = ?hb, Value = runes ''b'',
               Properties = analyzeString (\<lambda>r. r) (runes ''b''), CreatedAt = 0 \<rparr>"
  let ?store = "store_after (\<lambda>r. r) tie_requests"
  from hashes_a_b_c_distinct have neq: "?ha \<noteq> ?hb" "?hb \<noteq> ?ha" by auto
  have c1: "createString (\<lambda>r. r) Map.empty 0 (Some (runes ''b''))
      = (StatusCreated ?rb, [?hb \<mapsto> ?rb])"
    by (simp add: createString_bound [OF ShouldBindJSON_Some [OF runes_not_Nil(2)]])
  have c2: "createString (\<lambda>r. r) [?hb \<mapsto> ?rb] 0 (Some (runes ''a''))
      = (StatusCreated ?ra, [?hb \<mapsto> ?rb, ?ha \<mapsto> ?ra])"
    using neq by (simp add: createString_bound [OF ShouldBindJSON_Some [OF runes_not_Nil(1)]])
  have store: "?store = [?hb \<mapsto> ?rb, ?ha \<mapsto> ?ra]"
    by (simp add: store_after_def tie_requests_def c1 c2)
  have r1: "range_order ?store [?ha, ?hb]"
    unfolding store range_order_def using neq by auto
  have r2: "range_order ?store [?hb, ?ha]"
    unfolding store range_order_def using neq by auto
  have c: "sort_Slice_contract insertionSort" by (rule insertionSort_contract)
  have col1: "collect_matching (\<lambda>r. r) ?store no_filters [?ha, ?hb] = [?ra, ?rb]"
    unfolding store using neq
    by (simp add: collect_matching_def List.map_filter_simps matchesFilters_no_filters)
  have col2: "collect_matching (\<lambda>r. r) ?store no_filters [?hb, ?ha] = [?rb, ?ra]"
    unfolding store using neq
    by (simp add: collect_matching_def List.map_filter_simps matchesFilters_no_filters)
  have d1: "data_of (getAllStrings (\<lambda>r. r) insertionSort [?ha, ?hb] ?store (Some no_filters))
      = [?ra, ?rb]"
    unfolding data_of_getAllStrings col1
    by (simp add: insertionSort_def CreatedAt_Before_def)
  have d2: "data_of (getAllStrings (\<lambda>r. r) insertionSort [?hb, ?ha] ?store (Some no_filters))
      = [?rb, ?ra]"
    unfolding data_of_getAllStrings col2
    by (simp add: insertionSort_def CreatedAt_Before_def)
  from r1 r2 c show ?thesis unfolding d1 d2 by simp
qed

end
